theory Spec2Isabelle
  imports Main
begin

section \<open>Python strings and the helpers the harness calls\<close>

text \<open>
  A Python \<open>str\<close> is modelled as a \<open>string\<close>; each \<open>char\<close> stands for one code point
  below 256. \<open>str(n)\<close> of an integer is its decimal numeral.
\<close>

fun str_nat :: "nat \<Rightarrow> string" where
  "str_nat n =
     (if n < 10 then [''0123456789'' ! n]
      else str_nat (n div 10) @ [''0123456789'' ! (n mod 10)])"

declare str_nat.simps [simp del]

definition str_int :: "int \<Rightarrow> string" where
  "str_int i = (if i < 0 then CHR ''-'' # str_nat (nat (- i)) else str_nat (nat i))"

text \<open>\<open>sep.join(xs)\<close>.\<close>

fun join :: "string \<Rightarrow> string list \<Rightarrow> string" where
  "join sep [] = []"
| "join sep [x] = x"
| "join sep (x # y # ys) = x @ sep @ join sep (y # ys)"

text \<open>
  \<open>str.isspace\<close> on one code point below 256: TAB, LF, VT, FF, CR, the four separators
  0x1C to 0x1F, the space, NEL (0x85) and the no-break space (0xA0).
\<close>

definition isspace :: "char \<Rightarrow> bool" where
  "isspace c =
     (let k = (of_char c :: nat)
      in (9 \<le> k \<and> k \<le> 13) \<or> (28 \<le> k \<and> k \<le> 32) \<or> k = 133 \<or> k = 160)"

text \<open>\<open>s.strip()\<close> with no argument: drops the whitespace at both ends.\<close>

definition strip :: "string \<Rightarrow> string" where
  "strip s = rev (dropWhile isspace (rev (dropWhile isspace s)))"

text \<open>
  \<open>s.split(sep)\<close> for a one-character separator: never the empty list, \<open>''''\<close> gives
  \<open>['''']\<close>, and adjacent separators give empty fields.
\<close>

fun split :: "char \<Rightarrow> string \<Rightarrow> string list" where
  "split sep [] = [[]]"
| "split sep (c # cs) =
     (if c = sep then [] # split sep cs
      else (c # hd (split sep cs)) # tl (split sep cs))"

text \<open>\<open>range(lo, hi)\<close> as the list it iterates over.\<close>

definition py_range :: "int \<Rightarrow> int \<Rightarrow> int list" where
  "py_range lo hi = [lo..hi - 1]"

section \<open>Exceptions and the child process\<close>

text \<open>
  \<open>repr\<close> of a \<open>str\<close>: the text between single quotes, or between double quotes when it
  holds a single quote and no double quote; the quote in use and the backslash are escaped
  with a backslash, TAB, LF and CR are written \<open>\t\<close>, \<open>\n\<close>, \<open>\r\<close>, and every other code
  point that is not printable (below 0x20, 0x7F, 0x80 to 0xA0, 0xAD) is written \<open>\xhh\<close>
  with two lower-case hexadecimal digits.
\<close>

definition repr_char :: "char \<Rightarrow> char \<Rightarrow> string" where
  "repr_char quote c =
     (let k = (of_char c :: nat)
      in if c = quote \<or> k = 92 then [CHR 0x5C, c]
         else if k = 9 then [CHR 0x5C, CHR ''t'']
         else if k = 10 then [CHR 0x5C, CHR ''n'']
         else if k = 13 then [CHR 0x5C, CHR ''r'']
         else if k < 32 \<or> k = 127 \<or> (128 \<le> k \<and> k \<le> 160) \<or> k = 173
         then [CHR 0x5C, CHR ''x'', ''0123456789abcdef'' ! (k div 16),
               ''0123456789abcdef'' ! (k mod 16)]
         else [c])"

definition repr_str :: "string \<Rightarrow> string" where
  "repr_str s =
     (let quote = (if CHR 0x27 \<in> set s \<and> CHR 0x22 \<notin> set s then CHR 0x22 else CHR 0x27)
      in [quote] @ concat (map (repr_char quote) s) @ [quote])"

text \<open>\<open>str\<close> of a list of strings, which shows each element by its \<open>repr\<close>.\<close>

definition str_list :: "string list \<Rightarrow> string" where
  "str_list xs = ''['' @ join '', '' (map repr_str xs) @ '']''"

text \<open>
  The exceptions \<open>subprocess.run\<close> can raise, by the classes the handlers of
  \<open>run_benchmark\<close> tell apart: \<open>CalledProcessError\<close> (return code, command, captured
  output and error stream), \<open>TimeoutExpired\<close> (command, timeout), any other class derived
  from \<open>Exception\<close> (with its \<open>str\<close>), and a \<open>BaseException\<close> that is not an
  \<open>Exception\<close> (\<open>KeyboardInterrupt\<close>, \<open>SystemExit\<close>).
\<close>

datatype py_exc =
    CalledProcessError int "string list" string string
  | TimeoutExpired "string list" nat
  | Other_Exception string
  | Base_Exception string

fun is_Exception :: "py_exc \<Rightarrow> bool" where
  "is_Exception (Base_Exception m) = False"
| "is_Exception e = True"

text \<open>
  \<open>str(e)\<close> for the exceptions that reach the second handler of \<open>run_benchmark\<close>, the
  only place where the program takes it: \<open>TimeoutExpired.__str__\<close> formats the command
  with \<open>%s\<close>, and an exception of another class brings its own text. No equation is given
  for the other two classes: a \<open>CalledProcessError\<close> is taken by the first handler, which
  prints its \<open>stderr\<close>, and a \<open>BaseException\<close> is not caught.
\<close>

fun str_exc :: "py_exc \<Rightarrow> string" where
  "str_exc (TimeoutExpired c t) =
     ''Command '' @ [CHR 0x27] @ str_list c @ [CHR 0x27]
       @ '' timed out after '' @ str_nat t @ '' seconds''"
| "str_exc (Other_Exception m) = m"

declare str_exc.simps [simp del]

text \<open>
  What happens when a command is run: the child exits after some seconds of wall-clock
  time with a return code and its two captured streams, or never exits, or cannot be
  launched or read (an \<open>Exception\<close> with its description), or the wait is broken by a
  \<open>BaseException\<close> that is not an \<open>Exception\<close>.
\<close>

datatype child =
    Exits nat int string string
  | Hangs
  | Launch_error string
  | Interrupt string

record completed_process =
  returncode :: int
  stdout :: string
  stderr :: string

text \<open>
  \<open>subprocess.run(cmd, check=..., capture_output=True, text=True, timeout=...)\<close>, the
  operating system being the function from a command to what its child does.
\<close>

definition subprocess_run ::
  "(string list \<Rightarrow> child) \<Rightarrow> string list \<Rightarrow> bool \<Rightarrow> nat \<Rightarrow> py_exc + completed_process" where
  "subprocess_run os cmd check timeout =
     (case os cmd of
        Launch_error m \<Rightarrow> Inl (Other_Exception m)
      | Interrupt m \<Rightarrow> Inl (Base_Exception m)
      | Hangs \<Rightarrow> Inl (TimeoutExpired cmd timeout)
      | Exits secs rc out err \<Rightarrow>
          if timeout < secs then Inl (TimeoutExpired cmd timeout)
          else if check \<and> rc \<noteq> 0 then Inl (CalledProcessError rc cmd out err)
          else Inr \<lparr>returncode = rc, stdout = out, stderr = err\<rparr>)"

section \<open>The invocation runner\<close>

text \<open>
  \<open>run_benchmark\<close> returns what the Python function returns (\<open>Inr (Some text)\<close>,
  \<open>Inr None\<close>) or the exception it lets through (\<open>Inl\<close>), and the lines it printed.
\<close>

type_synonym run_result = "py_exc + string option"

text \<open>Lines 11 to 15: the command line, the path and the two parameters as text.\<close>

definition cmd :: "string \<Rightarrow> int \<Rightarrow> int \<Rightarrow> string list" where
  "cmd benchmark_bin lambda_val tau = [benchmark_bin, str_int lambda_val, str_int tau]"

definition run_benchmark ::
  "(string list \<Rightarrow> child) \<Rightarrow> int \<Rightarrow> int \<Rightarrow> string \<Rightarrow> run_result \<times> string list" where
  "run_benchmark os lambda_val tau benchmark_bin =
     (let cmd = cmd benchmark_bin lambda_val tau
      in case subprocess_run os cmd True 3000 of
           Inr result \<Rightarrow> (Inr (Some (stdout result)), [])
         | Inl e \<Rightarrow>
             (case e of
                CalledProcessError rc c out err \<Rightarrow>
                  (Inr None, [''Error running '' @ join '' '' cmd @ '':\<newline>'' @ err])
              | _ \<Rightarrow>
                  if is_Exception e
                  then (Inr None,
                        [''Unexpected error with '' @ join '' '' cmd @ '': '' @ str_exc e])
                  else (Inl e, [])))"

section \<open>The results file\<close>

text \<open>
  The file is the list of rows handed to \<open>csv.writer.writerow\<close>, each row the list of its
  fields: the rows that have reached the file (\<open>disk\<close>) and the rows still in the buffer
  of the open handle (\<open>buffer\<close>). \<open>flush\<close> and \<open>close\<close> move the buffer to the file.
\<close>

type_synonym row = "string list"

record results_file =
  disk :: "row list"
  buffer :: "row list"

definition open_w :: results_file where
  "open_w = \<lparr>disk = [], buffer = []\<rparr>"

definition writerow :: "row \<Rightarrow> results_file \<Rightarrow> results_file" where
  "writerow r f = f\<lparr>buffer := buffer f @ [r]\<rparr>"

definition flush :: "results_file \<Rightarrow> results_file" where
  "flush f = f\<lparr>disk := disk f @ buffer f, buffer := []\<rparr>"

definition close :: "results_file \<Rightarrow> results_file" where
  "close f = flush f"

definition header :: row where
  "header = [''lambda'', ''tau'', ''t_open_1_8'', ''t_open_1_4'', ''t_open_1_2'']"

text \<open>Lines 56 to 61 of \<open>main\<close>: the file is created and holds the header.\<close>

definition write_header :: results_file where
  "write_header = close (writerow header open_w)"

text \<open>
  Lines 88 to 90, the body of the collection loop once \<open>future.result()\<close> has returned
  \<open>result\<close>: \<open>None\<close> and the empty string are falsy.
\<close>

definition write_result :: "string option \<Rightarrow> results_file \<Rightarrow> results_file" where
  "write_result result f =
     (case result of
        None \<Rightarrow> f
      | Some text \<Rightarrow>
          if text \<noteq> [] then flush (writerow (split (CHR '','') (strip text)) f) else f)"

section \<open>The grid\<close>

definition lambdas :: "int list" where
  "lambdas = [40]"

definition taus :: "int list" where
  "taus = py_range 10 11"

text \<open>Lines 64 to 67: the two nested loops appending to \<open>param_combinations\<close>.\<close>

definition param_combinations :: "int list \<Rightarrow> int list \<Rightarrow> (int \<times> int) list" where
  "param_combinations ls ts =
     fold (\<lambda>csp acc. fold (\<lambda>tau acc'. acc' @ [(csp, tau)]) ts acc) ls []"

text \<open>
  What the main thread does with the grid, in the order in which it does it: each
  execution of line 67 appends one tuple to the list, and each execution of line 75 hands
  one tuple, read from the list, to the executor as the task of that index.
\<close>

datatype action = Appended "int \<times> int" | Submitted nat "int \<times> int"

text \<open>The actions of lines 64 to 67: the same two loops, one action per \<open>append\<close>.\<close>

definition grid_log :: "int list \<Rightarrow> int list \<Rightarrow> action list" where
  "grid_log ls ts =
     fold (\<lambda>csp lg. fold (\<lambda>tau lg'. lg' @ [Appended (csp, tau)]) ts lg) ls []"

section \<open>The thread pool and the collection loop\<close>

text \<open>
  The state of lines 71 to 90: one future per task submitted so far (\<open>None\<close> while the
  task has not finished), the lines printed so far, the index of the future the collection
  loop waits for, the results file, the exception that left the loop, and the actions of
  the main thread on the grid so far.

  The main thread submitting the next tuple, a worker finishing task \<open>i\<close> and the main
  thread taking one result are the three events; an execution is a list of events, in the
  order the scheduler lets them happen. An event that cannot happen in a state leaves it
  unchanged: no tuple is left to submit, the task is not submitted yet or has finished
  already, the submission loop has not ended, or the main thread blocks in
  \<open>future.result()\<close> on a future not yet resolved.
  The \<open>i\<close>-th submitted invocation runs in the operating system \<open>os i\<close>.
\<close>

record sweep_state =
  futures :: "run_result option list"
  printed :: "string list"
  position :: nat
  results :: results_file
  raised :: "py_exc option"
  log :: "action list"

datatype event = Submit | Finish nat | Collect

text \<open>One turn of the loop of lines 73 to 81.\<close>

definition submit :: "(int \<times> int) list \<Rightarrow> sweep_state \<Rightarrow> sweep_state" where
  "submit params s =
     (if length (futures s) < length params
      then s\<lparr>futures := futures s @ [None],
              log := log s @ [Submitted (length (futures s)) (params ! length (futures s))]\<rparr>
      else s)"

definition finish ::
  "(nat \<Rightarrow> string list \<Rightarrow> child) \<Rightarrow> (int \<times> int) list \<Rightarrow> string \<Rightarrow> nat \<Rightarrow> sweep_state \<Rightarrow> sweep_state" where
  "finish os params benchmark_bin i s =
     (if i < length params \<and> i < length (futures s) \<and> futures s ! i = None
      then (let (r, out) = run_benchmark (os i) (fst (params ! i)) (snd (params ! i)) benchmark_bin
            in s\<lparr>futures := (futures s)[i := Some r], printed := printed s @ out\<rparr>)
      else s)"

text \<open>
  One turn of the loop of lines 86 to 90, which starts when the submission loop has ended.
  \<open>future.result()\<close> raises again what the task raised; the exception leaves the loop and
  the \<open>with\<close> block, which closes the file.
\<close>

definition collect :: "(int \<times> int) list \<Rightarrow> sweep_state \<Rightarrow> sweep_state" where
  "collect params s =
     (if raised s = None \<and> length (futures s) = length params \<and> position s < length (futures s)
      then (case futures s ! position s of
              None \<Rightarrow> s
            | Some (Inl e) \<Rightarrow> s\<lparr>results := close (results s), raised := Some e\<rparr>
            | Some (Inr result) \<Rightarrow>
                s\<lparr>position := Suc (position s), results := write_result result (results s)\<rparr>)
      else s)"

fun exec ::
  "(nat \<Rightarrow> string list \<Rightarrow> child) \<Rightarrow> (int \<times> int) list \<Rightarrow> string \<Rightarrow> event \<Rightarrow> sweep_state \<Rightarrow> sweep_state" where
  "exec os params benchmark_bin Submit s = submit params s"
| "exec os params benchmark_bin (Finish i) s = finish os params benchmark_bin i s"
| "exec os params benchmark_bin Collect s = collect params s"

definition run ::
  "(nat \<Rightarrow> string list \<Rightarrow> child) \<Rightarrow> (int \<times> int) list \<Rightarrow> string \<Rightarrow> event list \<Rightarrow> sweep_state \<Rightarrow> sweep_state" where
  "run os params benchmark_bin es s = fold (exec os params benchmark_bin) es s"

text \<open>
  The state at line 72: the executor exists and no task is submitted; \<open>f\<close> is the results
  file and \<open>lg\<close> the actions of the main thread up to there.
\<close>

definition started :: "results_file \<Rightarrow> action list \<Rightarrow> sweep_state" where
  "started f lg =
     \<lparr>futures = [], printed = [], position = 0, results = f, raised = None, log = lg\<rparr>"

text \<open>
  Lines 71 to 90, from the state \<open>s0\<close> of line 72. Every task ends (the runner bounds its
  child by the timeout), the two loops of the main thread take all their turns and leaving
  the executor's \<open>with\<close> block waits for all tasks: an execution is any list of events
  \<open>sched\<close> followed by the events still due, the tuples not yet submitted, the tasks not
  yet finished and the turns of the collection loop not yet taken. Then the file is
  closed.
\<close>

definition sweep ::
  "(nat \<Rightarrow> string list \<Rightarrow> child) \<Rightarrow> (int \<times> int) list \<Rightarrow> string \<Rightarrow> event list \<Rightarrow> sweep_state \<Rightarrow> sweep_state" where
  "sweep os params benchmark_bin sched s0 =
     (let n = length params;
          s = run os params benchmark_bin
                (sched @ replicate n Submit @ map Finish [0..<n] @ replicate n Collect) s0
      in s\<lparr>results := close (results s)\<rparr>)"

text \<open>
  \<open>main\<close> for two lists of values, from the parsed arguments \<open>--threads\<close> and
  \<open>--benchmark-bin\<close> (as the absolute path): the header is written, then the grid is built,
  then the executor is created; \<open>ThreadPoolExecutor\<close> refuses a pool size that is not
  positive with a \<open>ValueError\<close>.
\<close>

definition main_from ::
  "int list \<Rightarrow> int list \<Rightarrow> int \<Rightarrow> string \<Rightarrow> (nat \<Rightarrow> string list \<Rightarrow> child) \<Rightarrow> event list \<Rightarrow> sweep_state" where
  "main_from ls ts threads benchmark_bin os sched =
     (let f = write_header;
          params = param_combinations ls ts;
          s0 = started f (grid_log ls ts)
      in if threads \<le> 0
         then s0\<lparr>raised := Some (Other_Exception ''max_workers must be greater than 0'')\<rparr>
         else sweep os params benchmark_bin sched s0)"

text \<open>\<open>main\<close>, with the two lists of values of lines 49 and 50.\<close>

definition main ::
  "int \<Rightarrow> string \<Rightarrow> (nat \<Rightarrow> string list \<Rightarrow> child) \<Rightarrow> event list \<Rightarrow> sweep_state" where
  "main threads benchmark_bin os sched = main_from lambdas taus threads benchmark_bin os sched"

section \<open>Notions used in the statements\<close>

text \<open>
  What the \<open>i\<close>-th submitted task gives its future, and what \<open>future.result()\<close> hands to
  the loop body when it does not raise.
\<close>

definition outcome ::
  "(nat \<Rightarrow> string list \<Rightarrow> child) \<Rightarrow> (int \<times> int) list \<Rightarrow> string \<Rightarrow> nat \<Rightarrow> run_result" where
  "outcome os params benchmark_bin i =
     fst (run_benchmark (os i) (fst (params ! i)) (snd (params ! i)) benchmark_bin)"

definition returned :: "run_result \<Rightarrow> string option" where
  "returned r = (case r of Inl e \<Rightarrow> None | Inr v \<Rightarrow> v)"

text \<open>The rows the loop body writes for tuple \<open>i\<close>, seen on an empty file.\<close>

definition contribution ::
  "(nat \<Rightarrow> string list \<Rightarrow> child) \<Rightarrow> (int \<times> int) list \<Rightarrow> string \<Rightarrow> nat \<Rightarrow> row list" where
  "contribution os params benchmark_bin i =
     disk (write_result (returned (outcome os params benchmark_bin i)) open_w)"

text \<open>The file after the loop body has run for the tuples \<open>0\<close> to \<open>k - 1\<close>, in that order.\<close>

definition collected ::
  "(nat \<Rightarrow> string list \<Rightarrow> child) \<Rightarrow> (int \<times> int) list \<Rightarrow> string \<Rightarrow> nat \<Rightarrow> results_file \<Rightarrow> results_file" where
  "collected os params benchmark_bin k f =
     fold write_result (map (\<lambda>i. returned (outcome os params benchmark_bin i)) [0..<k]) f"

text \<open>The data rows of a results file: all rows after the header.\<close>

definition data_rows :: "results_file \<Rightarrow> row list" where
  "data_rows f = tl (disk f)"

text \<open>The invariant of the sweep, kept by every event.\<close>

definition sweep_inv ::
  "(nat \<Rightarrow> string list \<Rightarrow> child) \<Rightarrow> (int \<times> int) list \<Rightarrow> string \<Rightarrow> results_file \<Rightarrow> sweep_state \<Rightarrow> bool" where
  "sweep_inv os params benchmark_bin f s \<longleftrightarrow>
     length (futures s) \<le> length params \<and>
     (\<forall>i < length (futures s).
        futures s ! i = None \<or> futures s ! i = Some (outcome os params benchmark_bin i)) \<and>
     position s \<le> length (futures s) \<and>
     (\<forall>j < position s. \<exists>v. futures s ! j = Some (Inr v)) \<and>
     results s = collected os params benchmark_bin (position s) f \<and>
     (raised s = None \<or>
        (position s < length (futures s) \<and> futures s ! position s = Some (Inl (the (raised s)))))"

text \<open>
  The invocation returned a text that is not empty: the only outcome for which the loop
  body writes a row.
\<close>

definition returns_text :: "run_result \<Rightarrow> bool" where
  "returns_text r = (case r of Inr (Some text) \<Rightarrow> text \<noteq> [] | _ \<Rightarrow> False)"

text \<open>The outcome the specification calls Success: the invocation returned its output.\<close>

definition is_Success :: "run_result \<Rightarrow> bool" where
  "is_Success r = (case r of Inr (Some text) \<Rightarrow> True | _ \<Rightarrow> False)"

text \<open>
  The sentence of the specification on the text of a row, as it is worded: only the
  newline that ends the text is removed.
\<close>

definition spec_strip_trailing_newline :: "string \<Rightarrow> string" where
  "spec_strip_trailing_newline s =
     (if s \<noteq> [] \<and> last s = CHR ''\<newline>'' then butlast s else s)"

text \<open>
  Operating systems for the examples: the same child for every command, and one child per
  submitted invocation.
\<close>

definition always :: "child \<Rightarrow> string list \<Rightarrow> child" where
  "always ch c = ch"

definition by_index :: "child list \<Rightarrow> nat \<Rightarrow> string list \<Rightarrow> child" where
  "by_index chs i c = (if i < length chs then chs ! i else Hangs)"

text \<open>The child is still running when the timeout of 3000 seconds expires.\<close>

definition exceeds_timeout :: "child \<Rightarrow> bool" where
  "exceeds_timeout ch = (case ch of Exits secs rc out err \<Rightarrow> 3000 < secs | Hangs \<Rightarrow> True | _ \<Rightarrow> False)"

text \<open>The wait for the child is broken by a \<open>BaseException\<close> that is not an \<open>Exception\<close>.\<close>

definition interrupted :: "child \<Rightarrow> bool" where
  "interrupted ch = (case ch of Interrupt m \<Rightarrow> True | _ \<Rightarrow> False)"

text \<open>No invocation of the sweep is interrupted.\<close>

definition no_interrupt ::
  "(nat \<Rightarrow> string list \<Rightarrow> child) \<Rightarrow> (int \<times> int) list \<Rightarrow> string \<Rightarrow> bool" where
  "no_interrupt os params benchmark_bin \<longleftrightarrow>
     (\<forall>i < length params.
        \<not> interrupted (os i (cmd benchmark_bin (fst (params ! i)) (snd (params ! i)))))"

text \<open>
  The invocation meets one of the three failures: the timeout, an exit status that is not
  zero, or an unexpected error.
\<close>

definition fails :: "child \<Rightarrow> bool" where
  "fails ch =
     (case ch of
        Exits secs rc out err \<Rightarrow> 3000 < secs \<or> rc \<noteq> 0
      | Hangs \<Rightarrow> True
      | Launch_error m \<Rightarrow> True
      | Interrupt m \<Rightarrow> False)"

section \<open>The file operations\<close>

lemma buffer_write_result: "buffer f = [] \<Longrightarrow> buffer (write_result r f) = []"
  by (simp add: write_result_def flush_def writerow_def split: option.splits)

lemma buffer_fold_write_result: "buffer f = [] \<Longrightarrow> buffer (fold write_result rs f) = []"
  by (induction rs arbitrary: f) (simp_all add: buffer_write_result)

lemma close_flushed: "buffer f = [] \<Longrightarrow> close f = f"
  by (simp add: close_def flush_def)

lemma collected_Suc:
  "collected os params b (Suc k) f =
     write_result (returned (outcome os params b k)) (collected os params b k f)"
  by (simp add: collected_def)

lemma buffer_collected: "buffer f = [] \<Longrightarrow> buffer (collected os params b k f) = []"
  by (simp add: collected_def buffer_fold_write_result)

lemma write_header_eq: "write_header = \<lparr>disk = [header], buffer = []\<rparr>"
  by (simp add: write_header_def close_def flush_def writerow_def open_w_def)

lemma buffer_write_header: "buffer write_header = []"
  by (simp add: write_header_eq)

lemma write_result_flushed:
  "buffer f = [] \<Longrightarrow> write_result r f = f\<lparr>disk := disk f @ disk (write_result r open_w)\<rparr>"
  by (simp add: write_result_def flush_def writerow_def open_w_def split: option.splits)

lemma disk_collected:
  "buffer f = [] \<Longrightarrow>
     disk (collected os params b k f) = disk f @ concat (map (contribution os params b) [0..<k])"
proof (induction k)
  case 0
  then show ?case by (simp add: collected_def)
next
  case (Suc k)
  have "buffer (collected os params b k f) = []" using Suc.prems by (rule buffer_collected)
  then have "write_result (returned (outcome os params b k)) (collected os params b k f) =
               (collected os params b k f)\<lparr>disk := disk (collected os params b k f)
                  @ disk (write_result (returned (outcome os params b k)) open_w)\<rparr>"
    by (rule write_result_flushed)
  then show ?case
    using Suc by (simp add: collected_Suc contribution_def)
qed

section \<open>The invariant of the sweep\<close>

lemma inv_started: "sweep_inv os params b f (started f lg)"
  by (simp add: sweep_inv_def started_def collected_def)

lemma inv_submit:
  assumes "sweep_inv os params b f s"
  shows "sweep_inv os params b f (submit params s)"
proof (cases "length (futures s) < length params")
  case False
  then show ?thesis using assms by (simp add: submit_def)
next
  case True
  have s: "submit params s =
             s\<lparr>futures := futures s @ [None],
               log := log s @ [Submitted (length (futures s)) (params ! length (futures s))]\<rparr>"
    using True by (simp add: submit_def)
  show ?thesis
    unfolding s using assms True
    by (auto simp add: sweep_inv_def nth_append less_Suc_eq)
qed

lemma inv_finish:
  assumes "sweep_inv os params b f s"
  shows "sweep_inv os params b f (finish os params b i s)"
proof (cases "i < length params \<and> i < length (futures s) \<and> futures s ! i = None")
  case False
  then show ?thesis using assms by (auto simp add: finish_def)
next
  case True
  obtain r out where ro: "run_benchmark (os i) (fst (params ! i)) (snd (params ! i)) b = (r, out)"
    by (cases "run_benchmark (os i) (fst (params ! i)) (snd (params ! i)) b")
  then have r: "r = outcome os params b i" by (simp add: outcome_def)
  have fin: "finish os params b i s = s\<lparr>futures := (futures s)[i := Some r], printed := printed s @ out\<rparr>"
    using True ro by (simp add: finish_def)
  have ip: "position s \<le> i"
  proof (rule ccontr)
    assume "\<not> position s \<le> i"
    then have "i < position s" by simp
    with assms obtain v where "futures s ! i = Some (Inr v)" by (auto simp add: sweep_inv_def)
    with True show False by simp
  qed
  have neq: "raised s \<noteq> None \<Longrightarrow> position s \<noteq> i"
    using assms True by (auto simp add: sweep_inv_def)
  show ?thesis
    unfolding sweep_inv_def fin using assms True ip neq r
    by (auto simp add: sweep_inv_def nth_list_update)
qed

lemma inv_collect:
  assumes "sweep_inv os params b f s" and "buffer f = []"
  shows "sweep_inv os params b f (collect params s)"
proof (cases "raised s = None \<and> length (futures s) = length params \<and> position s < length (futures s)")
  case False
  then have "collect params s = s" by (auto simp add: collect_def)
  then show ?thesis using assms by simp
next
  case True
  note T = True
  have len: "length (futures s) = length params" using T by simp
  have res: "results s = collected os params b (position s) f" using assms by (simp add: sweep_inv_def)
  show ?thesis
  proof (cases "futures s ! position s")
    case None
    then show ?thesis using assms T by (simp add: collect_def)
  next
    case (Some r)
    have r: "r = outcome os params b (position s)"
      using assms T Some len by (auto simp add: sweep_inv_def)
    show ?thesis
    proof (cases r)
      case (Inl e)
      have "collect params s = s\<lparr>results := close (results s), raised := Some e\<rparr>"
        using T Some Inl by (simp add: collect_def)
      moreover have "close (results s) = results s"
        using res assms(2) by (simp add: close_flushed buffer_collected)
      ultimately show ?thesis
        using assms T Some Inl len by (auto simp add: sweep_inv_def)
    next
      case (Inr v)
      have c: "collect params s = s\<lparr>position := Suc (position s), results := write_result v (results s)\<rparr>"
        using T Some Inr by (simp add: collect_def)
      have v: "returned (outcome os params b (position s)) = v"
      proof -
        have "outcome os params b (position s) = Inr v" using r Inr by simp
        then show ?thesis by (simp add: returned_def)
      qed
      show ?thesis
        unfolding c using assms T Some Inr len v
        by (auto simp add: sweep_inv_def collected_Suc less_Suc_eq)
    qed
  qed
qed

lemma inv_exec:
  "sweep_inv os params b f s \<Longrightarrow> buffer f = [] \<Longrightarrow> sweep_inv os params b f (exec os params b e s)"
  by (cases e) (simp_all add: inv_submit inv_finish inv_collect)

lemma inv_run:
  "sweep_inv os params b f s \<Longrightarrow> buffer f = [] \<Longrightarrow> sweep_inv os params b f (run os params b es s)"
  unfolding run_def by (induction es arbitrary: s) (simp_all add: inv_exec)

section \<open>Every execution ends with all results collected\<close>

lemma run_append: "run os params b (es @ es') s = run os params b es' (run os params b es s)"
  by (simp add: run_def)

lemma run_Cons: "run os params b (e # es) s = run os params b es (exec os params b e s)"
  by (simp add: run_def)

lemma run_Nil: "run os params b [] s = s"
  by (simp add: run_def)

lemma futures_collect: "futures (collect params s) = futures s"
  by (simp add: collect_def split: option.splits sum.splits)

lemma length_futures_finish: "length (futures (finish os params b i s)) = length (futures s)"
  by (simp add: finish_def split: prod.splits)

lemma submit_full: "length (futures s) = length params \<Longrightarrow> submit params s = s"
  by (simp add: submit_def)

lemma length_futures_submit:
  "length (futures s) \<le> length params \<Longrightarrow>
     length (futures (submit params s)) = min (length params) (Suc (length (futures s)))"
  by (simp add: submit_def)

lemma submit_all:
  "length (futures s) \<le> length params \<Longrightarrow>
     length (futures (run os params b (replicate k Submit) s)) =
       min (length params) (length (futures s) + k)"
proof (induction k arbitrary: s)
  case 0
  then show ?case by (simp add: run_Nil)
next
  case (Suc k)
  have l: "length (futures (submit params s)) = min (length params) (Suc (length (futures s)))"
    using Suc.prems by (rule length_futures_submit)
  then have "length (futures (submit params s)) \<le> length params" by simp
  from Suc.IH [OF this] l show ?case by (simp add: run_Cons)
qed

lemma length_futures_exec:
  "length (futures s) = length params \<Longrightarrow>
     length (futures (exec os params b e s)) = length params"
  by (cases e) (simp_all add: length_futures_finish futures_collect submit_full)

lemma resolved_finish:
  "futures s ! j \<noteq> None \<Longrightarrow> futures (finish os params b i s) ! j \<noteq> None"
  by (cases "i = j") (auto simp add: finish_def nth_list_update split: prod.splits)

lemma resolved_exec:
  "length (futures s) = length params \<Longrightarrow> futures s ! j \<noteq> None \<Longrightarrow>
     futures (exec os params b e s) ! j \<noteq> None"
  by (cases e) (simp_all add: resolved_finish futures_collect submit_full)

lemma resolved_run:
  "length (futures s) = length params \<Longrightarrow> futures s ! j \<noteq> None \<Longrightarrow>
     futures (run os params b es s) ! j \<noteq> None"
proof (induction es arbitrary: s)
  case Nil
  then show ?case by (simp add: run_Nil)
next
  case (Cons e es)
  have "length (futures (exec os params b e s)) = length params"
    using Cons.prems(1) by (rule length_futures_exec)
  moreover have "futures (exec os params b e s) ! j \<noteq> None"
    using Cons.prems by (rule resolved_exec)
  ultimately have "futures (run os params b es (exec os params b e s)) ! j \<noteq> None"
    by (rule Cons.IH)
  then show ?case unfolding run_Cons .
qed

lemma finish_resolves:
  "i < length params \<Longrightarrow> i < length (futures s) \<Longrightarrow> futures (finish os params b i s) ! i \<noteq> None"
  by (auto simp add: finish_def split: prod.splits)

lemma finish_all:
  "length (futures s) = length params \<Longrightarrow> i \<in> set xs \<Longrightarrow> i < length params \<Longrightarrow>
     futures (run os params b (map Finish xs) s) ! i \<noteq> None"
proof (induction xs arbitrary: s)
  case Nil
  then show ?case by simp
next
  case (Cons x xs)
  show ?case
  proof (cases "i = x")
    case True
    have "futures (finish os params b i s) ! i \<noteq> None"
      using Cons.prems by (simp add: finish_resolves)
    moreover have "length (futures (finish os params b i s)) = length params"
      using Cons.prems by (simp add: length_futures_finish)
    ultimately have "futures (run os params b (map Finish xs) (finish os params b i s)) ! i \<noteq> None"
      by (simp add: resolved_run)
    then show ?thesis using True by (simp add: run_Cons)
  next
    case False
    then have "i \<in> set xs" using Cons.prems by simp
    moreover have "length (futures (finish os params b x s)) = length params"
      using Cons.prems by (simp add: length_futures_finish)
    ultimately show ?thesis using Cons.IH Cons.prems(3) by (simp add: run_Cons)
  qed
qed

lemma collect_raised: "raised s \<noteq> None \<Longrightarrow> collect params s = s"
  by (auto simp add: collect_def)

lemma run_collect_raised: "raised s \<noteq> None \<Longrightarrow> run os params b (replicate k Collect) s = s"
  by (induction k) (simp_all add: run_Nil run_Cons collect_raised)

lemma collect_all:
  "raised s = None \<Longrightarrow> length (futures s) = length params \<Longrightarrow> position s \<le> length params \<Longrightarrow>
   \<forall>i < length params. futures s ! i \<noteq> None \<Longrightarrow>
     raised (run os params b (replicate k Collect) s) \<noteq> None \<or>
     position (run os params b (replicate k Collect) s) = min (length params) (position s + k)"
proof (induction k arbitrary: s)
  case 0
  then show ?case by (simp add: run_Nil)
next
  case (Suc k)
  show ?case
  proof (cases "position s < length params")
    case False
    then have "collect params s = s" using Suc.prems by (simp add: collect_def)
    then show ?thesis using Suc.IH [of s] Suc.prems False by (simp add: run_Cons)
  next
    case True
    then obtain r where r: "futures s ! position s = Some r" using Suc.prems by auto
    show ?thesis
    proof (cases r)
      case (Inl e)
      then have "raised (collect params s) \<noteq> None"
        using r True Suc.prems by (simp add: collect_def)
      then show ?thesis by (simp add: run_Cons run_collect_raised)
    next
      case (Inr v)
      then have c: "collect params s = s\<lparr>position := Suc (position s), results := write_result v (results s)\<rparr>"
        using r True Suc.prems by (simp add: collect_def)
      show ?thesis
        using Suc.IH [of "collect params s"] Suc.prems True unfolding c by (simp add: run_Cons c)
    qed
  qed
qed

lemma sweep_state:
  assumes "buffer f = []"
  shows "sweep_inv os params b f (sweep os params b sched (started f lg))"
    and "length (futures (sweep os params b sched (started f lg))) = length params"
    and "\<forall>i < length params.
           futures (sweep os params b sched (started f lg)) ! i = Some (outcome os params b i)"
    and "raised (sweep os params b sched (started f lg)) = None \<Longrightarrow>
           position (sweep os params b sched (started f lg)) = length params"
proof -
  let ?n = "length params"
  let ?s = "sweep os params b sched (started f lg)"
  let ?sa = "run os params b sched (started f lg)"
  let ?s1 = "run os params b (replicate ?n Submit) ?sa"
  let ?s2 = "run os params b (map Finish [0..<?n]) ?s1"
  let ?s3 = "run os params b (replicate ?n Collect) ?s2"
  have i0: "sweep_inv os params b f ?sa" by (simp add: inv_run inv_started assms(1))
  have i1: "sweep_inv os params b f ?s1" using i0 by (simp add: inv_run assms(1))
  have i2: "sweep_inv os params b f ?s2" using i1 by (simp add: inv_run assms(1))
  have i3: "sweep_inv os params b f ?s3" using i2 by (simp add: inv_run assms(1))
  have "buffer (results ?s3) = []" using i3 assms(1) by (simp add: sweep_inv_def buffer_collected)
  then have "close (results ?s3) = results ?s3" by (simp add: close_flushed)
  then have s: "?s = ?s3" by (simp add: sweep_def Let_def run_append)
  show "sweep_inv os params b f ?s" using i3 s by simp
  have l0: "length (futures ?sa) \<le> ?n" using i0 by (simp add: sweep_inv_def)
  have l1: "length (futures ?s1) = ?n" using submit_all [OF l0, of os b ?n] by simp
  have r2: "\<forall>i < ?n. futures ?s2 ! i \<noteq> None"
    using finish_all [OF l1] by simp
  have l2: "length (futures ?s2) = ?n"
  proof -
    have "length (futures (run os params b es t)) = ?n" if "length (futures t) = ?n" for es t
      using that by (induction es arbitrary: t) (simp_all add: run_Nil run_Cons length_futures_exec)
    then show ?thesis using l1 by simp
  qed
  have l3: "length (futures ?s3) = ?n"
  proof -
    have "length (futures (run os params b es t)) = ?n" if "length (futures t) = ?n" for es t
      using that by (induction es arbitrary: t) (simp_all add: run_Nil run_Cons length_futures_exec)
    then show ?thesis using l2 by simp
  qed
  show "length (futures ?s) = length params" using l3 s by simp
  have r3: "\<forall>i < ?n. futures ?s3 ! i \<noteq> None" using r2 l2 by (simp add: resolved_run)
  show "\<forall>i < length params. futures ?s ! i = Some (outcome os params b i)"
    using r3 i3 l3 unfolding s sweep_inv_def by metis
  show "position ?s = length params" if "raised ?s = None"
  proof (cases "raised ?s2 = None")
    case True
    have "position ?s2 \<le> ?n" using i2 l2 by (simp add: sweep_inv_def)
    from collect_all [OF True l2 this, of os b ?n] r2 that s
    show ?thesis by simp
  next
    case False
    then have "?s3 = ?s2" by (simp add: run_collect_raised)
    then show ?thesis using that s False by simp
  qed
qed

section \<open>The rows of the results file\<close>

lemma run_results:
  assumes "buffer f = []"
  shows "results (run os params b es (started f lg)) =
           collected os params b (position (run os params b es (started f lg))) f"
proof -
  have "sweep_inv os params b f (run os params b es (started f lg))"
    using inv_started assms by (rule inv_run)
  then show ?thesis by (simp add: sweep_inv_def)
qed

lemma sweep_results:
  assumes "buffer f = []"
  shows "results (sweep os params b sched (started f lg)) =
           collected os params b (position (sweep os params b sched (started f lg))) f"
proof -
  have "sweep_inv os params b f (sweep os params b sched (started f lg))"
    using assms by (rule sweep_state(1))
  then show ?thesis by (simp add: sweep_inv_def)
qed

lemma disk_write_header: "disk write_header = [header]"
  by (simp add: write_header_eq)

lemma run_disk:
  "disk (results (run os params b es (started write_header lg))) =
     header # concat (map (contribution os params b)
                        [0..<position (run os params b es (started write_header lg))])"
proof -
  have "results (run os params b es (started write_header lg)) =
          collected os params b (position (run os params b es (started write_header lg))) write_header"
    using buffer_write_header by (rule run_results)
  then have "disk (results (run os params b es (started write_header lg))) =
               disk write_header @ concat (map (contribution os params b)
                 [0..<position (run os params b es (started write_header lg))])"
    by (simp only: disk_collected [OF buffer_write_header])
  then show ?thesis by (simp only: disk_write_header append_Cons append_Nil)
qed

lemma sweep_disk:
  "disk (results (sweep os params b sched (started write_header lg))) =
     header # concat (map (contribution os params b)
                        [0..<position (sweep os params b sched (started write_header lg))])"
proof -
  have "results (sweep os params b sched (started write_header lg)) =
          collected os params b (position (sweep os params b sched (started write_header lg))) write_header"
    using buffer_write_header by (rule sweep_results)
  then have "disk (results (sweep os params b sched (started write_header lg))) =
               disk write_header @ concat (map (contribution os params b)
                 [0..<position (sweep os params b sched (started write_header lg))])"
    by (simp only: disk_collected [OF buffer_write_header])
  then show ?thesis by (simp only: disk_write_header append_Cons append_Nil)
qed

lemma run_rows:
  "data_rows (results (run os params b es (started write_header lg))) =
     concat (map (contribution os params b)
               [0..<position (run os params b es (started write_header lg))])"
  by (simp only: data_rows_def run_disk list.sel)

lemma sweep_rows:
  "data_rows (results (sweep os params b sched (started write_header lg))) =
     concat (map (contribution os params b)
               [0..<position (sweep os params b sched (started write_header lg))])"
  by (simp only: data_rows_def sweep_disk list.sel)

lemma sweep_buffer: "buffer (results (sweep os params b sched (started write_header lg))) = []"
proof -
  have "results (sweep os params b sched (started write_header lg)) =
          collected os params b (position (sweep os params b sched (started write_header lg))) write_header"
    using buffer_write_header by (rule sweep_results)
  then show ?thesis by (simp only: buffer_collected [OF buffer_write_header])
qed

section \<open>The actions of the main thread\<close>

lemma fold_append_actions:
  "fold (\<lambda>tau lg'. lg' @ [Appended (c, tau)]) ts lg = lg @ map (\<lambda>tau. Appended (c, tau)) ts"
  by (induction ts arbitrary: lg) simp_all

lemma fold_grid_log:
  "fold (\<lambda>csp lg. fold (\<lambda>tau lg'. lg' @ [Appended (csp, tau)]) ts lg) ls lg =
     lg @ map Appended (List.product ls ts)"
  by (induction ls arbitrary: lg) (simp_all add: fold_append_actions comp_def)

lemma log_exec:
  assumes "log s = lg @ map (\<lambda>i. Submitted i (params ! i)) [0..<length (futures s)]"
  shows "log (exec os params b e s) =
           lg @ map (\<lambda>i. Submitted i (params ! i)) [0..<length (futures (exec os params b e s))]"
proof (cases e)
  case Submit
  then show ?thesis using assms by (simp add: submit_def)
next
  case (Finish i)
  then show ?thesis using assms by (simp add: finish_def split: prod.splits)
next
  case Collect
  then show ?thesis using assms by (simp add: collect_def split: option.splits sum.splits)
qed

lemma log_run_from:
  "log s = lg @ map (\<lambda>i. Submitted i (params ! i)) [0..<length (futures s)] \<Longrightarrow>
     log (run os params b es s) =
       lg @ map (\<lambda>i. Submitted i (params ! i)) [0..<length (futures (run os params b es s))]"
proof (induction es arbitrary: s)
  case Nil
  then show ?case by (simp add: run_Nil)
next
  case (Cons e es)
  have "log (exec os params b e s) =
          lg @ map (\<lambda>i. Submitted i (params ! i)) [0..<length (futures (exec os params b e s))]"
    using Cons.prems by (rule log_exec)
  then show ?case unfolding run_Cons by (rule Cons.IH)
qed

lemma log_run:
  "log (run os params b es (started f lg)) =
     lg @ map (\<lambda>i. Submitted i (params ! i))
            [0..<length (futures (run os params b es (started f lg)))]"
  by (rule log_run_from) (simp add: started_def)

lemma log_sweep:
  assumes "buffer f = []"
  shows "log (sweep os params b sched (started f lg)) =
           lg @ map (\<lambda>i. Submitted i (params ! i)) [0..<length params]"
proof -
  let ?es = "sched @ replicate (length params) Submit @ map Finish [0..<length params]
               @ replicate (length params) Collect"
  have l: "length (futures (sweep os params b sched (started f lg))) = length params"
    using assms by (rule sweep_state(2))
  have "log (sweep os params b sched (started f lg)) = log (run os params b ?es (started f lg))"
    by (simp add: sweep_def Let_def)
  moreover have "futures (sweep os params b sched (started f lg)) =
                   futures (run os params b ?es (started f lg))"
    by (simp add: sweep_def Let_def)
  ultimately show ?thesis using l log_run [of os params b ?es f lg] by simp
qed

section \<open>The grid generator\<close>

lemma fold_append_pairs:
  "fold (\<lambda>tau acc'. acc' @ [(c, tau)]) ts acc = acc @ map (Pair c) ts"
  by (induction ts arbitrary: acc) simp_all

lemma fold_param_combinations:
  "fold (\<lambda>csp acc. fold (\<lambda>tau acc'. acc' @ [(csp, tau)]) ts acc) ls acc = acc @ List.product ls ts"
  by (induction ls arbitrary: acc) (simp_all add: fold_append_pairs)

lemma param_combinations_product: "param_combinations ls ts = List.product ls ts"
  by (simp add: param_combinations_def fold_param_combinations)

lemma grid_log_appends: "grid_log ls ts = map Appended (param_combinations ls ts)"
  by (simp add: grid_log_def fold_grid_log param_combinations_product)

lemma length_param_combinations: "length (param_combinations ls ts) = length ls * length ts"
  by (simp add: param_combinations_product)

lemma main_from_sweep:
  "0 < threads \<Longrightarrow>
     main_from ls ts threads b os sched =
       sweep os (param_combinations ls ts) b sched (started write_header (grid_log ls ts))"
  by (simp add: main_from_def Let_def)

text \<open>
  Claim C4. For every pair of value lists, the nested loops produce the ordered Cartesian
  product, the second (rightmost) dimension running fastest: the tuple at index
  \<open>i * length ts + j\<close> is \<open>(ls ! i, ts ! j)\<close>; the list has \<open>length ls * length ts\<close>
  tuples. The list is complete before any task is submitted: the loops append exactly the
  tuples of the list, in its order; in every state that any sequence of events of the pool
  reaches from line 72, the actions of the main thread are these appends, all of them,
  followed by the submissions made so far, the task of index \<open>i\<close> taking the tuple at
  index \<open>i\<close> of the list; and \<open>main\<close> with a positive pool size ends, under every schedule,
  having made all appends first and then one submission per tuple.
\<close>

theorem grid_is_ordered_product:
  "param_combinations ls ts = concat (map (\<lambda>csp. map (Pair csp) ts) ls) \<and>
   length (param_combinations ls ts) = length ls * length ts \<and>
   (\<forall>i < length ls. \<forall>j < length ts.
      param_combinations ls ts ! (i * length ts + j) = (ls ! i, ts ! j)) \<and>
   grid_log ls ts = map Appended (param_combinations ls ts) \<and>
   log (run os (param_combinations ls ts) b es (started f (grid_log ls ts))) =
     map Appended (param_combinations ls ts)
       @ map (\<lambda>i. Submitted i (param_combinations ls ts ! i))
           [0..<length (futures (run os (param_combinations ls ts) b es
                                   (started f (grid_log ls ts))))] \<and>
   (0 < threads \<longrightarrow>
      log (main_from ls ts threads b os sched) =
        map Appended (param_combinations ls ts)
          @ map (\<lambda>i. Submitted i (param_combinations ls ts ! i)) [0..<length ls * length ts] \<and>
      length (futures (main_from ls ts threads b os sched)) = length ls * length ts)"
proof -
  have idx: "param_combinations ls ts ! (i * length ts + j) = (ls ! i, ts ! j)"
    if "i < length ls" "j < length ts" for i j
  proof -
    have "i * length ts + j < length ls * length ts"
    proof -
      have "i * length ts + j < i * length ts + length ts" using that by simp
      also have "\<dots> = Suc i * length ts" by simp
      also have "\<dots> \<le> length ls * length ts" using that by (intro mult_le_mono1) simp
      finally show ?thesis .
    qed
    moreover have pos: "0 < length ts" using that by (cases ts) simp_all
    moreover have "(i * length ts + j) div length ts = i"
      using that pos by simp
    moreover have "(i * length ts + j) mod length ts = j"
      using that pos by simp
    ultimately show ?thesis by (simp add: param_combinations_product product_nth)
  qed
  have c: "param_combinations ls ts = concat (map (\<lambda>csp. map (Pair csp) ts) ls)"
    by (simp only: param_combinations_product product_concat_map)
  have l: "length (param_combinations ls ts) = length ls * length ts"
    by (rule length_param_combinations)
  have g: "grid_log ls ts = map Appended (param_combinations ls ts)"
    by (rule grid_log_appends)
  have r: "log (run os (param_combinations ls ts) b es (started f (grid_log ls ts))) =
             map Appended (param_combinations ls ts)
               @ map (\<lambda>i. Submitted i (param_combinations ls ts ! i))
                   [0..<length (futures (run os (param_combinations ls ts) b es
                                           (started f (grid_log ls ts))))]"
    unfolding g [symmetric] by (rule log_run)
  have m: "log (main_from ls ts threads b os sched) =
             map Appended (param_combinations ls ts)
               @ map (\<lambda>i. Submitted i (param_combinations ls ts ! i)) [0..<length ls * length ts] \<and>
           length (futures (main_from ls ts threads b os sched)) = length ls * length ts"
    if "0 < threads"
  proof -
    have "log (main_from ls ts threads b os sched) =
            grid_log ls ts @ map (\<lambda>i. Submitted i (param_combinations ls ts ! i))
                               [0..<length (param_combinations ls ts)]"
      unfolding main_from_sweep [OF that] using buffer_write_header by (rule log_sweep)
    moreover have "length (futures (main_from ls ts threads b os sched)) =
                     length (param_combinations ls ts)"
      unfolding main_from_sweep [OF that] using buffer_write_header by (rule sweep_state(2))
    ultimately show ?thesis by (simp only: g l simp_thms)
  qed
  from c l idx g r m show ?thesis by blast
qed

theorem grid_is_ordered_product_witness:
  "param_combinations [1, 2] [10, 20, 30] = [(1, 10), (1, 20), (1, 30), (2, 10), (2, 20), (2, 30)] \<and>
   param_combinations [1, 2] [10, 20, 30] ! 5 = (2, 30) \<and>
   (0 :: int) < 4 \<and>
   log (main_from [1, 2] [10, 20, 30] 4 ''/w/my_app'' (by_index []) [Submit, Finish 0]) =
     [Appended (1, 10), Appended (1, 20), Appended (1, 30),
      Appended (2, 10), Appended (2, 20), Appended (2, 30),
      Submitted 0 (1, 10), Submitted 1 (1, 20), Submitted 2 (1, 30),
      Submitted 3 (2, 10), Submitted 4 (2, 20), Submitted 5 (2, 30)]"
  using grid_is_ordered_product [where ls = "[1, 2]" and ts = "[10, 20, 30]" and threads = 4
      and b = "''/w/my_app''" and os = "by_index []" and sched = "[Submit, Finish 0]"]
  by simp

section \<open>The invocation runner, case by case\<close>

lemma run_benchmark_eq:
  "run_benchmark os l t b =
     (case os (cmd b l t) of
        Exits secs rc out err \<Rightarrow>
          if 3000 < secs
          then (Inr None, [''Unexpected error with '' @ join '' '' (cmd b l t) @ '': ''
                             @ str_exc (TimeoutExpired (cmd b l t) 3000)])
          else if rc \<noteq> 0
          then (Inr None, [''Error running '' @ join '' '' (cmd b l t) @ '':\<newline>'' @ err])
          else (Inr (Some out), [])
      | Hangs \<Rightarrow>
          (Inr None, [''Unexpected error with '' @ join '' '' (cmd b l t) @ '': ''
                        @ str_exc (TimeoutExpired (cmd b l t) 3000)])
      | Launch_error m \<Rightarrow>
          (Inr None, [''Unexpected error with '' @ join '' '' (cmd b l t) @ '': '' @ m])
      | Interrupt m \<Rightarrow> (Inl (Base_Exception m), []))"
  by (simp add: run_benchmark_def subprocess_run_def Let_def str_exc.simps(2) split: child.splits)

lemma run_benchmark_timeout:
  "exceeds_timeout (os (cmd b l t)) \<Longrightarrow>
     run_benchmark os l t b =
       (Inr None, [''Unexpected error with '' @ join '' '' (cmd b l t) @ '': ''
                     @ str_exc (TimeoutExpired (cmd b l t) 3000)])"
  by (simp add: run_benchmark_eq exceeds_timeout_def split: child.splits)

lemma run_benchmark_launch_error:
  "run_benchmark (always (Launch_error m)) l t b =
     (Inr None, [''Unexpected error with '' @ join '' '' (cmd b l t) @ '': '' @ m])"
  by (simp add: run_benchmark_eq always_def)

lemma run_benchmark_nonzero:
  "os (cmd b l t) = Exits secs rc out err \<Longrightarrow> secs \<le> 3000 \<Longrightarrow> rc \<noteq> 0 \<Longrightarrow>
     run_benchmark os l t b =
       (Inr None, [''Error running '' @ join '' '' (cmd b l t) @ '':\<newline>'' @ err])"
  by (simp add: run_benchmark_eq)

lemma run_benchmark_success:
  "os (cmd b l t) = Exits secs 0 out err \<Longrightarrow> secs \<le> 3000 \<Longrightarrow>
     run_benchmark os l t b = (Inr (Some out), [])"
  by (simp add: run_benchmark_eq)

lemma fst_run_benchmark:
  "fst (run_benchmark os l t b) =
     (case os (cmd b l t) of
        Exits secs rc out err \<Rightarrow> if secs \<le> 3000 \<and> rc = 0 then Inr (Some out) else Inr None
      | Hangs \<Rightarrow> Inr None
      | Launch_error m \<Rightarrow> Inr None
      | Interrupt m \<Rightarrow> Inl (Base_Exception m))"
  by (simp add: run_benchmark_eq split: child.splits)

lemma cmd_40_10: "cmd b 40 10 = [b, ''40'', ''10'']"
  by (simp add: cmd_def str_int_def str_nat.simps)

lemma outcome_eq:
  "params ! i = (l, t) \<Longrightarrow> outcome os params b i = fst (run_benchmark (os i) l t b)"
  by (simp add: outcome_def)

lemma failure_contributes_nothing:
  "outcome os params b i = Inr None \<Longrightarrow>
     contribution os params b i = [] \<and> write_result (returned (outcome os params b i)) f = f"
  by (simp add: contribution_def returned_def write_result_def open_w_def)

lemma concat_skip:
  assumes "g i = []"
  shows "concat (map g (filter (\<lambda>j. j \<noteq> i) xs)) = concat (map g xs)"
proof (induction xs)
  case Nil
  show ?case by simp
next
  case (Cons a xs)
  show ?case
  proof (cases "a = i")
    case True
    have "g a = []" using assms True by simp
    then show ?thesis using Cons True by simp
  next
    case False
    then show ?thesis using Cons by simp
  qed
qed

lemma sweep_rows_without:
  assumes "contribution os params b i = []"
  shows "data_rows (results (sweep os params b sched (started write_header lg))) =
           concat (map (contribution os params b)
                     (filter (\<lambda>j. j \<noteq> i)
                        [0..<position (sweep os params b sched (started write_header lg))]))"
  unfolding sweep_rows using assms by (rule concat_skip [symmetric])

text \<open>
  Claim C1, as amended. When the child of an invocation is still running at the timeout of
  3000 seconds, \<open>run_benchmark\<close> returns \<open>None\<close>, the failure, through its second handler:
  it prints \<open>Unexpected error with\<close>, the command and the text of the \<open>TimeoutExpired\<close>
  exception. Value and line are those of an unexpected error with that description, so the
  timeout is not told apart from the unexpected errors; it is told apart from the exit with
  a status that is not zero, whose line is another. The tuple contributes no row: the loop
  body leaves the file as it is, and the data rows of the file are those of the other
  tuples.
\<close>

theorem timeout_is_reported_as_unexpected_error:
  assumes "i < length params"
    and "params ! i = (l, t)"
    and "exceeds_timeout (os i (cmd b l t))"
  shows "run_benchmark (os i) l t b =
           (Inr None, [''Unexpected error with '' @ join '' '' (cmd b l t) @ '': ''
                         @ str_exc (TimeoutExpired (cmd b l t) 3000)]) \<and>
         run_benchmark (os i) l t b =
           run_benchmark (always (Launch_error (str_exc (TimeoutExpired (cmd b l t) 3000)))) l t b \<and>
         (os' (cmd b' l' t') = Exits secs' rc' out' err' \<and> secs' \<le> 3000 \<and> rc' \<noteq> 0 \<longrightarrow>
            snd (run_benchmark os' l' t' b') \<noteq> snd (run_benchmark (os i) l t b)) \<and>
         contribution os params b i = [] \<and>
         write_result (returned (outcome os params b i)) f = f \<and>
         data_rows (results (sweep os params b sched (started write_header lg))) =
           concat (map (contribution os params b)
                     (filter (\<lambda>j. j \<noteq> i)
                        [0..<position (sweep os params b sched (started write_header lg))]))"
proof -
  have r: "run_benchmark (os i) l t b =
             (Inr None, [''Unexpected error with '' @ join '' '' (cmd b l t) @ '': ''
                           @ str_exc (TimeoutExpired (cmd b l t) 3000)])"
    using assms(3) by (rule run_benchmark_timeout)
  have e: "run_benchmark (os i) l t b =
             run_benchmark (always (Launch_error (str_exc (TimeoutExpired (cmd b l t) 3000)))) l t b"
    by (simp only: r run_benchmark_launch_error)
  have n: "snd (run_benchmark os' l' t' b') \<noteq> snd (run_benchmark (os i) l t b)"
    if "os' (cmd b' l' t') = Exits secs' rc' out' err' \<and> secs' \<le> 3000 \<and> rc' \<noteq> 0"
  proof -
    have "run_benchmark os' l' t' b' =
            (Inr None, [''Error running '' @ join '' '' (cmd b' l' t') @ '':\<newline>'' @ err'])"
      using that by (simp add: run_benchmark_nonzero)
    then show ?thesis by (simp add: r)
  qed
  have "outcome os params b i = Inr None"
    by (simp only: outcome_eq [OF assms(2)] r fst_conv)
  then have c: "contribution os params b i = [] \<and>
                write_result (returned (outcome os params b i)) f = f"
    by (rule failure_contributes_nothing)
  have d: "data_rows (results (sweep os params b sched (started write_header lg))) =
             concat (map (contribution os params b)
                       (filter (\<lambda>j. j \<noteq> i)
                          [0..<position (sweep os params b sched (started write_header lg))]))"
    using c by (simp only: sweep_rows_without)
  from r e n c d show ?thesis by blast
qed

theorem timeout_is_reported_as_unexpected_error_witness:
  "(0 :: nat) < length [(40 :: int, 10 :: int), (40, 11)] \<and>
   [(40 :: int, 10 :: int), (40, 11)] ! 0 = (40, 10) \<and>
   exceeds_timeout (by_index [Hangs, Exits 1 0 ''40,11,1,2,3'' ''''] 0 (cmd ''/w/my_app'' 40 10)) \<and>
   fst (run_benchmark (by_index [Hangs, Exits 1 0 ''40,11,1,2,3'' ''''] 0) 40 10 ''/w/my_app'') =
     Inr None \<and>
   always (Exits 1 1 [] ''boom'') (cmd ''/w/my_app'' 40 10) = Exits 1 1 [] ''boom'' \<and>
   (1 :: nat) \<le> 3000 \<and> (1 :: int) \<noteq> 0 \<and>
   snd (run_benchmark (always (Exits 1 1 [] ''boom'')) 40 10 ''/w/my_app'') \<noteq>
     snd (run_benchmark (by_index [Hangs, Exits 1 0 ''40,11,1,2,3'' ''''] 0) 40 10 ''/w/my_app'') \<and>
   contribution (by_index [Hangs, Exits 1 0 ''40,11,1,2,3'' '''']) [(40, 10), (40, 11)]
     ''/w/my_app'' 0 = []"
proof -
  have h4: "always (Exits 1 1 [] ''boom'') (cmd ''/w/my_app'' 40 10) = Exits 1 1 [] ''boom'' \<and>
            (1 :: nat) \<le> 3000 \<and> (1 :: int) \<noteq> 0"
    by (simp add: always_def)
  have h1: "(0 :: nat) < length [(40 :: int, 10 :: int), (40, 11)]" by simp
  have h2: "[(40 :: int, 10 :: int), (40, 11)] ! 0 = (40, 10)" by simp
  have h3: "exceeds_timeout (by_index [Hangs, Exits 1 0 ''40,11,1,2,3'' ''''] 0 (cmd ''/w/my_app'' 40 10))"
    by (simp add: by_index_def exceeds_timeout_def)
  from timeout_is_reported_as_unexpected_error
         [where os = "by_index [Hangs, Exits 1 0 ''40,11,1,2,3'' '''']" and i = 0
            and params = "[(40, 10), (40, 11)]" and l = 40 and t = 10 and b = "''/w/my_app''"
            and os' = "always (Exits 1 1 [] ''boom'')" and b' = "''/w/my_app''" and l' = 40
            and t' = 10 and secs' = 1 and rc' = 1 and out' = "[]" and err' = "''boom''"
            and f = open_w and sched = "[]" and lg = "[]",
          OF h1 h2 h3] h1 h2 h3 h4
  show ?thesis by auto
qed

text \<open>
  The claim as worded fails: what \<open>run_benchmark\<close> returns and prints for a timeout is what
  it returns and prints for an unexpected error with the same description.
\<close>

theorem timeout_tag_counterexample:
  "run_benchmark (always Hangs) 40 10 ''/w/my_app'' =
     run_benchmark
       (always (Launch_error (str_exc (TimeoutExpired [''/w/my_app'', ''40'', ''10''] 3000))))
       40 10 ''/w/my_app'' \<and>
   run_benchmark (always Hangs) 40 10 ''/w/my_app'' =
     (Inr None,
      [''Unexpected error with /w/my_app 40 10: ''
         @ str_exc (TimeoutExpired [''/w/my_app'', ''40'', ''10''] 3000)]) \<and>
   run_benchmark (always (Launch_error ''No such file'')) 40 10 ''/w/my_app'' =
     (Inr None, [''Unexpected error with /w/my_app 40 10: No such file''])"
  by (simp add: run_benchmark_eq always_def cmd_40_10)

text \<open>
  Claim C6. When the child of an invocation exits within the timeout with a status that is
  not zero, \<open>run_benchmark\<close> returns \<open>None\<close>, the failure, through its first handler: it
  prints \<open>Error running\<close>, the command and the captured error stream of the child, a line
  that no timeout and no unexpected error produces. The tuple contributes no row: the loop
  body leaves the file as it is, and the data rows of the file are those of the other
  tuples.
\<close>

theorem nonzero_exit_is_a_failure_with_stderr_logged:
  assumes "i < length params"
    and "params ! i = (l, t)"
    and "os i (cmd b l t) = Exits secs rc out err"
    and "secs \<le> 3000"
    and "rc \<noteq> 0"
  shows "run_benchmark (os i) l t b =
           (Inr None, [''Error running '' @ join '' '' (cmd b l t) @ '':\<newline>'' @ err]) \<and>
         (exceeds_timeout (os' (cmd b' l' t')) \<or> (\<exists>m. os' (cmd b' l' t') = Launch_error m) \<longrightarrow>
            snd (run_benchmark os' l' t' b') \<noteq> snd (run_benchmark (os i) l t b)) \<and>
         contribution os params b i = [] \<and>
         write_result (returned (outcome os params b i)) f = f \<and>
         data_rows (results (sweep os params b sched (started write_header lg))) =
           concat (map (contribution os params b)
                     (filter (\<lambda>j. j \<noteq> i)
                        [0..<position (sweep os params b sched (started write_header lg))]))"
proof -
  have r: "run_benchmark (os i) l t b =
             (Inr None, [''Error running '' @ join '' '' (cmd b l t) @ '':\<newline>'' @ err])"
    using assms(3-5) by (rule run_benchmark_nonzero)
  have n: "snd (run_benchmark os' l' t' b') \<noteq> snd (run_benchmark (os i) l t b)"
    if "exceeds_timeout (os' (cmd b' l' t')) \<or> (\<exists>m. os' (cmd b' l' t') = Launch_error m)"
    using that
  proof
    assume "exceeds_timeout (os' (cmd b' l' t'))"
    then have "run_benchmark os' l' t' b' =
                 (Inr None, [''Unexpected error with '' @ join '' '' (cmd b' l' t') @ '': ''
                               @ str_exc (TimeoutExpired (cmd b' l' t') 3000)])"
      by (rule run_benchmark_timeout)
    then show ?thesis by (simp add: r)
  next
    assume "\<exists>m. os' (cmd b' l' t') = Launch_error m"
    then obtain m where "os' (cmd b' l' t') = Launch_error m" ..
    then have "run_benchmark os' l' t' b' =
                 (Inr None, [''Unexpected error with '' @ join '' '' (cmd b' l' t') @ '': '' @ m])"
      by (simp add: run_benchmark_eq)
    then show ?thesis by (simp add: r)
  qed
  have "outcome os params b i = Inr None"
    by (simp only: outcome_eq [OF assms(2)] r fst_conv)
  then have c: "contribution os params b i = [] \<and>
                write_result (returned (outcome os params b i)) f = f"
    by (rule failure_contributes_nothing)
  have d: "data_rows (results (sweep os params b sched (started write_header lg))) =
             concat (map (contribution os params b)
                       (filter (\<lambda>j. j \<noteq> i)
                          [0..<position (sweep os params b sched (started write_header lg))]))"
    using c by (simp only: sweep_rows_without)
  from r n c d show ?thesis by blast
qed

theorem nonzero_exit_is_a_failure_with_stderr_logged_witness:
  "(0 :: nat) < length [(40 :: int, 10 :: int), (40, 11)] \<and>
   [(40 :: int, 10 :: int), (40, 11)] ! 0 = (40, 10) \<and>
   by_index [Exits 2 1 ''partial'' ''boom'', Exits 1 0 ''40,11,1,2,3'' ''''] 0
     (cmd ''/w/my_app'' 40 10) = Exits 2 1 ''partial'' ''boom'' \<and>
   (2 :: nat) \<le> 3000 \<and> (1 :: int) \<noteq> 0 \<and>
   run_benchmark (by_index [Exits 2 1 ''partial'' ''boom'', Exits 1 0 ''40,11,1,2,3'' ''''] 0)
     40 10 ''/w/my_app'' = (Inr None, [''Error running /w/my_app 40 10:\<newline>boom'']) \<and>
   exceeds_timeout (always Hangs (cmd ''/w/my_app'' 40 10)) \<and>
   snd (run_benchmark (always Hangs) 40 10 ''/w/my_app'') \<noteq>
     snd (run_benchmark (by_index [Exits 2 1 ''partial'' ''boom'', Exits 1 0 ''40,11,1,2,3'' ''''] 0)
            40 10 ''/w/my_app'') \<and>
   contribution (by_index [Exits 2 1 ''partial'' ''boom'', Exits 1 0 ''40,11,1,2,3'' ''''])
     [(40, 10), (40, 11)] ''/w/my_app'' 0 = []"
proof -
  have h1: "(0 :: nat) < length [(40 :: int, 10 :: int), (40, 11)]" by simp
  have h2: "[(40 :: int, 10 :: int), (40, 11)] ! 0 = (40, 10)" by simp
  have h3: "by_index [Exits 2 1 ''partial'' ''boom'', Exits 1 0 ''40,11,1,2,3'' ''''] 0
              (cmd ''/w/my_app'' 40 10) = Exits 2 1 ''partial'' ''boom''"
    by (simp add: by_index_def)
  have h4: "(2 :: nat) \<le> 3000" by simp
  have h5: "(1 :: int) \<noteq> 0" by simp
  have h6: "exceeds_timeout (always Hangs (cmd ''/w/my_app'' 40 10))"
    by (simp add: always_def exceeds_timeout_def)
  from nonzero_exit_is_a_failure_with_stderr_logged
         [where os = "by_index [Exits 2 1 ''partial'' ''boom'', Exits 1 0 ''40,11,1,2,3'' '''']"
            and i = 0 and params = "[(40, 10), (40, 11)]" and l = 40 and t = 10
            and b = "''/w/my_app''" and os' = "always Hangs" and b' = "''/w/my_app''"
            and l' = 40 and t' = 10 and f = open_w and sched = "[]" and lg = "[]",
          OF h1 h2 h3 h4 h5] h1 h2 h3 h6
  show ?thesis by (auto simp add: cmd_40_10)
qed

section \<open>No exception of class \<open>Exception\<close> leaves the runner\<close>

lemma outcome_no_interrupt:
  assumes "no_interrupt os params b" and "i < length params"
  shows "\<exists>v. outcome os params b i = Inr v"
proof -
  have "\<not> interrupted (os i (cmd b (fst (params ! i)) (snd (params ! i))))"
    using assms by (simp add: no_interrupt_def)
  then show ?thesis
    by (simp add: outcome_def fst_run_benchmark interrupted_def split: child.splits)
qed

lemma raised_no_interrupt:
  assumes "sweep_inv os params b f s" and "no_interrupt os params b"
  shows "raised s = None"
proof (rule ccontr)
  assume r: "raised s \<noteq> None"
  have "raised s = None \<or>
          (position s < length (futures s) \<and> futures s ! position s = Some (Inl (the (raised s))))"
    using assms(1) by (simp add: sweep_inv_def)
  with r have pe: "position s < length (futures s) \<and>
                   futures s ! position s = Some (Inl (the (raised s)))"
    by auto
  from pe have p: "position s < length (futures s)" ..
  from pe have e: "futures s ! position s = Some (Inl (the (raised s)))" ..
  have l: "length (futures s) \<le> length params" using assms(1) by (simp add: sweep_inv_def)
  have "futures s ! position s = None \<or> futures s ! position s = Some (outcome os params b (position s))"
    using assms(1) p by (simp add: sweep_inv_def)
  then have o: "outcome os params b (position s) = Inl (the (raised s))" using e by auto
  have "position s < length params" using p l by simp
  with assms(2) obtain v where "outcome os params b (position s) = Inr v"
    using outcome_no_interrupt by blast
  with o show False by simp
qed

text \<open>
  Claim C9. For every tuple and every behaviour of the child, \<open>run_benchmark\<close> returns and
  prints by the table below: the first handler takes the non-zero exit, the second one the
  timeout and every other \<open>Exception\<close>. Unless the wait is broken by a \<open>BaseException\<close> that
  is not an \<open>Exception\<close>, it returns the captured output or \<open>None\<close> and raises nothing; and
  when no invocation of a sweep is broken so, no \<open>future.result()\<close> raises: no exception
  leaves the collection loop, in any state reached and at the end.
\<close>

theorem run_benchmark_is_total_over_Exceptions:
  "run_benchmark os l t b =
     (case os (cmd b l t) of
        Exits secs rc out err \<Rightarrow>
          if 3000 < secs
          then (Inr None, [''Unexpected error with '' @ join '' '' (cmd b l t) @ '': ''
                             @ str_exc (TimeoutExpired (cmd b l t) 3000)])
          else if rc \<noteq> 0
          then (Inr None, [''Error running '' @ join '' '' (cmd b l t) @ '':\<newline>'' @ err])
          else (Inr (Some out), [])
      | Hangs \<Rightarrow>
          (Inr None, [''Unexpected error with '' @ join '' '' (cmd b l t) @ '': ''
                        @ str_exc (TimeoutExpired (cmd b l t) 3000)])
      | Launch_error m \<Rightarrow>
          (Inr None, [''Unexpected error with '' @ join '' '' (cmd b l t) @ '': '' @ m])
      | Interrupt m \<Rightarrow> (Inl (Base_Exception m), [])) \<and>
   (\<not> interrupted (os (cmd b l t)) \<longrightarrow>
      fst (run_benchmark os l t b) = Inr None \<or>
      (\<exists>secs err. os (cmd b l t) = Exits secs 0 (the (returned (fst (run_benchmark os l t b)))) err \<and>
         fst (run_benchmark os l t b) = Inr (Some (the (returned (fst (run_benchmark os l t b))))))) \<and>
   (no_interrupt os' params b \<longrightarrow>
      raised (run os' params b es (started write_header lg)) = None \<and>
      raised (sweep os' params b sched (started write_header lg)) = None \<and>
      (\<forall>i < length params.
         \<exists>v. futures (sweep os' params b sched (started write_header lg)) ! i = Some (Inr v)))"
proof -
  have a: "\<not> interrupted (os (cmd b l t)) \<longrightarrow>
      fst (run_benchmark os l t b) = Inr None \<or>
      (\<exists>secs err. os (cmd b l t) = Exits secs 0 (the (returned (fst (run_benchmark os l t b)))) err \<and>
         fst (run_benchmark os l t b) = Inr (Some (the (returned (fst (run_benchmark os l t b))))))"
    by (cases "os (cmd b l t)") (auto simp add: fst_run_benchmark interrupted_def returned_def)
  have s: "raised (run os' params b es (started write_header lg)) = None \<and>
           raised (sweep os' params b sched (started write_header lg)) = None \<and>
           (\<forall>i < length params.
              \<exists>v. futures (sweep os' params b sched (started write_header lg)) ! i = Some (Inr v))"
    if n: "no_interrupt os' params b"
  proof -
    have "sweep_inv os' params b write_header (run os' params b es (started write_header lg))"
      using inv_started buffer_write_header by (rule inv_run)
    then have r1: "raised (run os' params b es (started write_header lg)) = None"
      using n by (rule raised_no_interrupt)
    have "sweep_inv os' params b write_header (sweep os' params b sched (started write_header lg))"
      using buffer_write_header by (rule sweep_state(1))
    then have r2: "raised (sweep os' params b sched (started write_header lg)) = None"
      using n by (rule raised_no_interrupt)
    have r3: "\<exists>v. futures (sweep os' params b sched (started write_header lg)) ! i = Some (Inr v)"
      if i: "i < length params" for i
    proof -
      have "futures (sweep os' params b sched (started write_header lg)) ! i =
              Some (outcome os' params b i)"
        using sweep_state(3) [OF buffer_write_header] i by blast
      moreover obtain v where "outcome os' params b i = Inr v"
        using outcome_no_interrupt [OF n i] by blast
      ultimately show ?thesis by simp
    qed
    from r1 r2 r3 show ?thesis by blast
  qed
  from run_benchmark_eq [of os l t b] a s show ?thesis by blast
qed

theorem run_benchmark_is_total_over_Exceptions_witness:
  "\<not> interrupted (always (Exits 5 0 ''40,10,1,2,3'' '''') (cmd ''/w/my_app'' 40 10)) \<and>
   no_interrupt (by_index [Hangs, Exits 1 2 '''' ''boom'']) [(40, 10), (40, 11)] ''/w/my_app'' \<and>
   run_benchmark (always (Exits 5 0 ''40,10,1,2,3'' '''')) 40 10 ''/w/my_app'' =
     (Inr (Some ''40,10,1,2,3''), []) \<and>
   raised (sweep (by_index [Hangs, Exits 1 2 '''' ''boom'']) [(40, 10), (40, 11)] ''/w/my_app''
             [Collect, Submit, Finish 0] (started write_header [])) = None"
proof -
  have h1: "\<not> interrupted (always (Exits 5 0 ''40,10,1,2,3'' '''') (cmd ''/w/my_app'' 40 10))"
    by (simp add: always_def interrupted_def)
  have h2: "no_interrupt (by_index [Hangs, Exits 1 2 '''' ''boom'']) [(40, 10), (40, 11)] ''/w/my_app''"
    by (simp add: no_interrupt_def by_index_def interrupted_def less_Suc_eq)
  from run_benchmark_is_total_over_Exceptions
         [where os = "always (Exits 5 0 ''40,10,1,2,3'' '''')" and l = 40 and t = 10
            and b = "''/w/my_app''" and os' = "by_index [Hangs, Exits 1 2 '''' ''boom'']"
            and params = "[(40, 10), (40, 11)]" and sched = "[Collect, Submit, Finish 0]"
            and lg = "[]" and es = "[]"] h1 h2
  show ?thesis by (simp add: always_def)
qed

section \<open>The text of a row\<close>

lemma isspace_newline: "isspace (CHR ''\<newline>'')"
  by (simp add: isspace_def)

lemma strip_all_space:
  assumes "\<forall>c \<in> set raw. isspace c"
  shows "strip raw = []"
proof -
  have "dropWhile P xs = []" if "\<forall>x \<in> set xs. P x" for P and xs :: string
    using that by (induction xs) simp_all
  then have "dropWhile isspace raw = []" using assms by blast
  then show ?thesis by (simp only: strip_def rev.simps dropWhile.simps)
qed

lemma dropWhile_hd: "xs \<noteq> [] \<Longrightarrow> \<not> P (hd xs) \<Longrightarrow> dropWhile P xs = xs"
  by (cases xs) simp_all

lemma last_dropWhile: "dropWhile P xs \<noteq> [] \<Longrightarrow> last (dropWhile P xs) = last xs"
  by (induction xs) (auto split: if_splits)

lemma strip_parts:
  "raw = takeWhile isspace raw @ strip raw
            @ rev (takeWhile isspace (rev (dropWhile isspace raw)))"
proof -
  let ?rest = "dropWhile isspace raw"
  have "rev ?rest = takeWhile isspace (rev ?rest) @ dropWhile isspace (rev ?rest)"
    by simp
  then have "rev (rev ?rest) =
               rev (takeWhile isspace (rev ?rest) @ dropWhile isspace (rev ?rest))"
    by (rule arg_cong)
  then have "?rest = strip raw @ rev (takeWhile isspace (rev ?rest))"
    by (simp only: rev_rev_ident rev_append strip_def)
  moreover have "raw = takeWhile isspace raw @ ?rest" by simp
  ultimately show ?thesis by (simp only:)
qed

lemma strip_ends:
  assumes "strip raw \<noteq> []"
  shows "\<not> isspace (hd (strip raw)) \<and> \<not> isspace (last (strip raw))"
proof -
  let ?rest = "dropWhile isspace raw"
  let ?core = "dropWhile isspace (rev ?rest)"
  have core: "?core \<noteq> []" using assms by (simp add: strip_def)
  have rest: "?rest \<noteq> []"
  proof
    assume "?rest = []"
    then have "?core = []" by (simp only: rev.simps dropWhile.simps)
    with core show False ..
  qed
  have "last (strip raw) = hd ?core" using core by (simp add: strip_def last_rev)
  moreover have "\<not> isspace (hd ?core)" using core by (rule hd_dropWhile)
  moreover have "hd (strip raw) = last ?core" using core by (simp add: strip_def hd_rev)
  moreover have "last ?core = last (rev ?rest)" using core by (rule last_dropWhile)
  moreover have "last (rev ?rest) = hd ?rest" using rest by (simp add: last_rev)
  moreover have "\<not> isspace (hd ?rest)" using rest by (rule hd_dropWhile)
  ultimately show ?thesis by simp
qed

lemma strip_line:
  assumes "line \<noteq> []" and "\<not> isspace (hd line)" and "\<not> isspace (last line)"
  shows "strip (line @ ''\<newline>'') = line"
proof -
  have "line @ ''\<newline>'' \<noteq> []" by simp
  moreover have "\<not> isspace (hd (line @ ''\<newline>''))" using assms(1,2) by simp
  ultimately have a: "dropWhile isspace (line @ ''\<newline>'') = line @ ''\<newline>''"
    by (rule dropWhile_hd)
  have "rev line \<noteq> []" using assms(1) by simp
  moreover have "\<not> isspace (hd (rev line))" using assms(1,3) by (simp add: hd_rev)
  ultimately have b: "dropWhile isspace (rev line) = rev line" by (rule dropWhile_hd)
  show ?thesis by (simp add: strip_def a b isspace_newline)
qed

lemma split_not_Nil: "split sep s \<noteq> []"
  by (cases s) simp_all

lemma join_Cons_Cons: "join sep ((c # y) # ys) = c # join sep (y # ys)"
  by (cases ys) simp_all

lemma join_split: "join [sep] (split sep s) = s"
proof (induction s)
  case Nil
  show ?case by simp
next
  case (Cons c cs)
  obtain y ys where sp: "split sep cs = y # ys"
    using split_not_Nil [of sep cs] by (cases "split sep cs") simp_all
  show ?case
  proof (cases "c = sep")
    case True
    then show ?thesis using Cons sp by simp
  next
    case False
    then show ?thesis using Cons sp by (simp add: join_Cons_Cons)
  qed
qed

lemma write_result_text:
  "raw \<noteq> [] \<Longrightarrow>
     write_result (Some raw) f =
       f\<lparr>disk := disk f @ buffer f @ [split (CHR '','') (strip raw)], buffer := []\<rparr>"
  by (simp add: write_result_def flush_def writerow_def)

lemma write_result_empty: "write_result (Some []) f = f"
  by (simp add: write_result_def)

lemma write_result_None: "write_result None f = f"
  by (simp add: write_result_def)

text \<open>
  Claim C7, as amended. A clean exit hands the captured output to the loop as it is. For a
  text that is not empty the loop body writes exactly one row and flushes: the row joins
  the rows already written, nothing stays in the buffer. The row is the text without its
  leading and trailing whitespace, split at the commas: the text is the whitespace before,
  the stripped text and the whitespace after, the stripped text neither starts nor ends
  with whitespace, and joining the fields with commas gives the stripped text back. On a
  line with no whitespace at its ends followed by one newline, only that newline goes. An
  empty text writes no row.
\<close>

theorem success_row_is_stripped_and_split:
  "(os (cmd b l t) = Exits secs 0 out err \<and> secs \<le> 3000 \<longrightarrow>
      run_benchmark os l t b = (Inr (Some out), [])) \<and>
   (raw \<noteq> [] \<longrightarrow>
      write_result (Some raw) f =
        f\<lparr>disk := disk f @ buffer f @ [split (CHR '','') (strip raw)], buffer := []\<rparr>) \<and>
   raw = takeWhile isspace raw @ strip raw
            @ rev (takeWhile isspace (rev (dropWhile isspace raw))) \<and>
   (strip raw \<noteq> [] \<longrightarrow> \<not> isspace (hd (strip raw)) \<and> \<not> isspace (last (strip raw))) \<and>
   join '','' (split (CHR '','') (strip raw)) = strip raw \<and>
   (line \<noteq> [] \<and> \<not> isspace (hd line) \<and> \<not> isspace (last line) \<longrightarrow>
      strip (line @ ''\<newline>'') = line \<and>
      spec_strip_trailing_newline (line @ ''\<newline>'') = line) \<and>
   write_result (Some []) f = f"
proof -
  have a: "run_benchmark os l t b = (Inr (Some out), [])"
    if "os (cmd b l t) = Exits secs 0 out err \<and> secs \<le> 3000"
    using that by (simp add: run_benchmark_success)
  have w: "write_result (Some raw) f =
             f\<lparr>disk := disk f @ buffer f @ [split (CHR '','') (strip raw)], buffer := []\<rparr>"
    if "raw \<noteq> []"
    using that by (rule write_result_text)
  have e: "\<not> isspace (hd (strip raw)) \<and> \<not> isspace (last (strip raw))" if "strip raw \<noteq> []"
    using that by (rule strip_ends)
  have j: "join '','' (split (CHR '','') (strip raw)) = strip raw"
    by (rule join_split)
  have n: "strip (line @ ''\<newline>'') = line \<and> spec_strip_trailing_newline (line @ ''\<newline>'') = line"
    if "line \<noteq> [] \<and> \<not> isspace (hd line) \<and> \<not> isspace (last line)"
    using that by (simp add: strip_line spec_strip_trailing_newline_def)
  from a w strip_parts [of raw] e j n write_result_empty [of f] show ?thesis by blast
qed

theorem success_row_is_stripped_and_split_witness:
  "always (Exits 7 0 ''40,10,1.1,2.2,3.3\<newline>'' '''') (cmd ''/w/my_app'' 40 10) =
     Exits 7 0 ''40,10,1.1,2.2,3.3\<newline>'' '''' \<and> (7 :: nat) \<le> 3000 \<and>
   ''40,10,1.1,2.2,3.3\<newline>'' \<noteq> [] \<and>
   ''40,10,1.1,2.2,3.3'' \<noteq> [] \<and> \<not> isspace (hd ''40,10,1.1,2.2,3.3'') \<and>
   \<not> isspace (last ''40,10,1.1,2.2,3.3'') \<and>
   strip ''40,10,1.1,2.2,3.3\<newline>'' \<noteq> [] \<and>
   run_benchmark (always (Exits 7 0 ''40,10,1.1,2.2,3.3\<newline>'' '''')) 40 10 ''/w/my_app'' =
     (Inr (Some ''40,10,1.1,2.2,3.3\<newline>''), []) \<and>
   write_result (Some ''40,10,1.1,2.2,3.3\<newline>'') write_header =
     \<lparr>disk = [header, [''40'', ''10'', ''1.1'', ''2.2'', ''3.3'']], buffer = []\<rparr>"
proof -
  have h1: "always (Exits 7 0 ''40,10,1.1,2.2,3.3\<newline>'' '''') (cmd ''/w/my_app'' 40 10) =
              Exits 7 0 ''40,10,1.1,2.2,3.3\<newline>'' '''' \<and> (7 :: nat) \<le> 3000"
    by (simp add: always_def)
  have h2: "''40,10,1.1,2.2,3.3\<newline>'' \<noteq> []" by simp
  have h3: "''40,10,1.1,2.2,3.3'' \<noteq> [] \<and> \<not> isspace (hd ''40,10,1.1,2.2,3.3'') \<and>
            \<not> isspace (last ''40,10,1.1,2.2,3.3'')"
    by (simp add: isspace_def)
  have s: "strip ''40,10,1.1,2.2,3.3\<newline>'' = ''40,10,1.1,2.2,3.3''"
    using h3 strip_line [of "''40,10,1.1,2.2,3.3''"] by simp
  from success_row_is_stripped_and_split
         [where os = "always (Exits 7 0 ''40,10,1.1,2.2,3.3\<newline>'' '''')" and b = "''/w/my_app''"
            and l = 40 and t = 10 and secs = 7 and out = "''40,10,1.1,2.2,3.3\<newline>''"
            and err = "''''" and raw = "''40,10,1.1,2.2,3.3\<newline>''" and f = write_header
            and line = "''40,10,1.1,2.2,3.3''"] h1 h2 h3 s
  show ?thesis by (auto simp add: write_header_eq)
qed

text \<open>
  The claim as worded fails: on a text that starts with a space the row written is not the
  text less its last newline, split at the commas; and an empty text writes no row.
\<close>

theorem strip_only_newline_counterexample:
  "disk (write_result (Some '' 1,2\<newline>'') open_w) = [[''1'', ''2'']] \<and>
   [split (CHR '','') (spec_strip_trailing_newline '' 1,2\<newline>'')] = [['' 1'', ''2'']] \<and>
   disk (write_result (Some '''') open_w) = []"
  by (simp add: write_result_def flush_def writerow_def open_w_def strip_def isspace_def
        spec_strip_trailing_newline_def)

section \<open>The guard of the row write\<close>

lemma empty_contributes_nothing:
  "outcome os params b i = Inr (Some []) \<Longrightarrow>
     contribution os params b i = [] \<and> write_result (returned (outcome os params b i)) f = f"
  by (simp add: contribution_def returned_def write_result_def open_w_def)

text \<open>
  Claim C10. When the child of an invocation exits with status 0 within the timeout and
  prints nothing, the invocation returns the empty text, and the loop body writes no row
  for the tuple: it leaves the file as it is, as it does for \<open>None\<close>, and the data rows of
  the file are those of the other tuples. A text that is not empty and holds whitespace
  only passes the guard: one row is written and flushed, the row of one empty field.
\<close>

theorem empty_output_writes_no_row:
  "(i < length params \<and> params ! i = (l, t) \<and> os i (cmd b l t) = Exits secs 0 [] err \<and>
    secs \<le> 3000 \<longrightarrow>
      outcome os params b i = Inr (Some []) \<and>
      contribution os params b i = [] \<and>
      write_result (returned (outcome os params b i)) f = f \<and>
      data_rows (results (sweep os params b sched (started write_header lg))) =
        concat (map (contribution os params b)
                  (filter (\<lambda>j. j \<noteq> i)
                     [0..<position (sweep os params b sched (started write_header lg))]))) \<and>
   write_result (Some []) f = f \<and>
   write_result None f = f \<and>
   (raw \<noteq> [] \<and> (\<forall>c \<in> set raw. isspace c) \<longrightarrow>
      write_result (Some raw) f = f\<lparr>disk := disk f @ buffer f @ [['''']], buffer := []\<rparr>)"
proof -
  have a: "outcome os params b i = Inr (Some []) \<and>
           contribution os params b i = [] \<and>
           write_result (returned (outcome os params b i)) f = f \<and>
           data_rows (results (sweep os params b sched (started write_header lg))) =
             concat (map (contribution os params b)
                       (filter (\<lambda>j. j \<noteq> i)
                          [0..<position (sweep os params b sched (started write_header lg))]))"
    if h: "i < length params \<and> params ! i = (l, t) \<and> os i (cmd b l t) = Exits secs 0 [] err \<and>
           secs \<le> 3000"
  proof -
    have p: "params ! i = (l, t)" using h by simp
    have "run_benchmark (os i) l t b = (Inr (Some []), [])"
      using h by (simp add: run_benchmark_success)
    then have o: "outcome os params b i = Inr (Some [])"
      by (simp only: outcome_eq [OF p] fst_conv)
    then have c: "contribution os params b i = [] \<and>
                  write_result (returned (outcome os params b i)) f = f"
      by (rule empty_contributes_nothing)
    have d: "data_rows (results (sweep os params b sched (started write_header lg))) =
               concat (map (contribution os params b)
                         (filter (\<lambda>j. j \<noteq> i)
                            [0..<position (sweep os params b sched (started write_header lg))]))"
      using c by (simp only: sweep_rows_without)
    from o c d show ?thesis by blast
  qed
  have w: "write_result (Some raw) f = f\<lparr>disk := disk f @ buffer f @ [['''']], buffer := []\<rparr>"
    if "raw \<noteq> [] \<and> (\<forall>c \<in> set raw. isspace c)"
    using that by (simp add: write_result_text strip_all_space)
  from a write_result_empty [of f] write_result_None [of f] w show ?thesis by blast
qed

theorem empty_output_writes_no_row_witness:
  "(0 :: nat) < length [(40 :: int, 10 :: int), (40, 11)] \<and>
   [(40 :: int, 10 :: int), (40, 11)] ! 0 = (40, 10) \<and>
   by_index [Exits 3 0 '''' ''warn'', Exits 1 0 ''40,11,1,2,3'' ''''] 0 (cmd ''/w/my_app'' 40 10) =
     Exits 3 0 '''' ''warn'' \<and>
   (3 :: nat) \<le> 3000 \<and>
   ''\<newline>'' \<noteq> [] \<and> isspace (CHR ''\<newline>'') \<and>
   contribution (by_index [Exits 3 0 '''' ''warn'', Exits 1 0 ''40,11,1,2,3'' ''''])
     [(40, 10), (40, 11)] ''/w/my_app'' 0 = [] \<and>
   write_result (Some ''\<newline>'') write_header = \<lparr>disk = [header, ['''']], buffer = []\<rparr>"
proof -
  have h1: "(0 :: nat) < length [(40 :: int, 10 :: int), (40, 11)] \<and>
            [(40 :: int, 10 :: int), (40, 11)] ! 0 = (40, 10) \<and>
            by_index [Exits 3 0 '''' ''warn'', Exits 1 0 ''40,11,1,2,3'' ''''] 0
              (cmd ''/w/my_app'' 40 10) = Exits 3 0 '''' ''warn'' \<and>
            (3 :: nat) \<le> 3000"
    by (simp add: by_index_def)
  have h2: "''\<newline>'' \<noteq> [] \<and> (\<forall>c \<in> set ''\<newline>''. isspace c)"
    by (simp add: isspace_def)
  from empty_output_writes_no_row
         [where os = "by_index [Exits 3 0 '''' ''warn'', Exits 1 0 ''40,11,1,2,3'' '''']"
            and i = 0 and params = "[(40, 10), (40, 11)]" and l = 40 and t = 10
            and b = "''/w/my_app''" and secs = 3 and err = "''warn''" and f = write_header
            and sched = "[]" and lg = "[]" and raw = "''\<newline>''"] h1 h2
  show ?thesis by (auto simp add: write_header_eq)
qed

section \<open>Where the collection loop ends\<close>

lemma sweep_position:
  assumes "buffer f = []"
  shows "position (sweep os params b sched (started f lg)) \<le> length params"
    and "\<forall>j < position (sweep os params b sched (started f lg)). \<exists>v. outcome os params b j = Inr v"
    and "position (sweep os params b sched (started f lg)) = length params \<or>
         (\<exists>e. outcome os params b (position (sweep os params b sched (started f lg))) = Inl e)"
proof -
  let ?s = "sweep os params b sched (started f lg)"
  have inv: "sweep_inv os params b f ?s" using assms by (rule sweep_state(1))
  have len: "length (futures ?s) = length params" using assms by (rule sweep_state(2))
  have fut: "\<forall>i < length params. futures ?s ! i = Some (outcome os params b i)"
    using assms by (rule sweep_state(3))
  have p: "position ?s \<le> length (futures ?s)" using inv by (simp add: sweep_inv_def)
  then show le: "position ?s \<le> length params" using len by simp
  have res: "\<forall>j < position ?s. \<exists>v. futures ?s ! j = Some (Inr v)"
    using inv by (simp add: sweep_inv_def)
  show "\<forall>j < position ?s. \<exists>v. outcome os params b j = Inr v"
  proof (intro allI impI)
    fix j
    assume j: "j < position ?s"
    then obtain v where "futures ?s ! j = Some (Inr v)" using res by blast
    moreover have "futures ?s ! j = Some (outcome os params b j)" using fut j le by simp
    ultimately have "outcome os params b j = Inr v" by simp
    then show "\<exists>v. outcome os params b j = Inr v" ..
  qed
  show "position ?s = length params \<or> (\<exists>e. outcome os params b (position ?s) = Inl e)"
  proof (cases "raised ?s = None")
    case True
    then have "position ?s = length params" using sweep_state(4) [OF assms] by blast
    then show ?thesis ..
  next
    case False
    have "raised ?s = None \<or>
            (position ?s < length (futures ?s) \<and>
             futures ?s ! position ?s = Some (Inl (the (raised ?s))))"
      using inv by (simp add: sweep_inv_def)
    with False have pe: "position ?s < length (futures ?s) \<and>
                         futures ?s ! position ?s = Some (Inl (the (raised ?s)))"
      by auto
    from pe have lt: "position ?s < length params" using len by simp
    from fut lt have f2: "futures ?s ! position ?s = Some (outcome os params b (position ?s))"
      by blast
    from pe have f1: "futures ?s ! position ?s = Some (Inl (the (raised ?s)))" ..
    from f2 [symmetric] f1
    have "Some (outcome os params b (position ?s)) = Some (Inl (the (raised ?s)))"
      by (rule trans)
    then have "outcome os params b (position ?s) = Inl (the (raised ?s))" by simp
    then show ?thesis by blast
  qed
qed

lemma first_raise_unique:
  fixes g :: "nat \<Rightarrow> 'a + 'b"
  assumes "p \<le> n" and "\<forall>j < p. \<exists>v. g j = Inr v" and "p = n \<or> (\<exists>e. g p = Inl e)"
    and "q \<le> n" and "\<forall>j < q. \<exists>v. g j = Inr v" and "q = n \<or> (\<exists>e. g q = Inl e)"
  shows "p = q"
proof (rule ccontr)
  assume "p \<noteq> q"
  then consider "p < q" | "q < p" by linarith
  then show False
  proof cases
    case 1
    then have "p \<noteq> n" using assms(4) by simp
    then obtain e where "g p = Inl e" using assms(3) by blast
    moreover obtain v where "g p = Inr v" using assms(5) 1 by blast
    ultimately show False by simp
  next
    case 2
    then have "q \<noteq> n" using assms(1) by simp
    then obtain e where "g q = Inl e" using assms(6) by blast
    moreover obtain v where "g q = Inr v" using assms(2) 2 by blast
    ultimately show False by simp
  qed
qed

lemma sweep_position_schedule:
  assumes "buffer f = []"
  shows "position (sweep os params b sched (started f lg)) =
         position (sweep os params b sched' (started f lg))"
  using sweep_position [OF assms, of os params b sched lg]
    sweep_position [OF assms, of os params b sched' lg]
  by (rule first_raise_unique)

lemma sweep_no_interrupt:
  assumes "no_interrupt os params b"
  shows "raised (sweep os params b sched (started write_header lg)) = None"
    and "position (sweep os params b sched (started write_header lg)) = length params"
proof -
  have "sweep_inv os params b write_header (sweep os params b sched (started write_header lg))"
    using buffer_write_header by (rule sweep_state(1))
  then show r: "raised (sweep os params b sched (started write_header lg)) = None"
    using assms by (rule raised_no_interrupt)
  show "position (sweep os params b sched (started write_header lg)) = length params"
    using buffer_write_header r by (rule sweep_state(4))
qed

lemma run_resolved:
  assumes "buffer f = []" and "j < position (run os params b es (started f lg))"
  shows "futures (run os params b es (started f lg)) ! j = Some (outcome os params b j)"
proof -
  let ?s = "run os params b es (started f lg)"
  have inv: "sweep_inv os params b f ?s" using inv_started assms(1) by (rule inv_run)
  have p: "position ?s \<le> length (futures ?s)" using inv by (simp add: sweep_inv_def)
  have "\<forall>j < position ?s. \<exists>v. futures ?s ! j = Some (Inr v)"
    using inv by (simp add: sweep_inv_def)
  then obtain v where v: "futures ?s ! j = Some (Inr v)" using assms(2) by blast
  have "\<forall>i < length (futures ?s).
          futures ?s ! i = None \<or> futures ?s ! i = Some (outcome os params b i)"
    using inv by (simp add: sweep_inv_def)
  then have "futures ?s ! j = None \<or> futures ?s ! j = Some (outcome os params b j)"
    using assms(2) p by simp
  with v show ?thesis by simp
qed

lemma run_bounds:
  assumes "buffer f = []"
  shows "position (run os params b es (started f lg))
           \<le> length (futures (run os params b es (started f lg)))"
    and "length (futures (run os params b es (started f lg))) \<le> length params"
proof -
  have inv: "sweep_inv os params b f (run os params b es (started f lg))"
    using inv_started assms(1) by (rule inv_run)
  show "position (run os params b es (started f lg))
          \<le> length (futures (run os params b es (started f lg)))"
    using inv by (simp add: sweep_inv_def)
  show "length (futures (run os params b es (started f lg))) \<le> length params"
    using inv by (simp add: sweep_inv_def)
qed

text \<open>
  Claim C2. For every list of tuples and whatever the invocations give, in every state that
  a sequence of submissions, task completions and turns of the collection loop reaches, the
  data rows of the file are the rows of the tuples \<open>0\<close> to \<open>position - 1\<close>, in the order
  of submission, and each of these tuples has its outcome; the loop is at a future that
  exists. At the end of the sweep the same holds, the file is the same for every schedule,
  and when no invocation is interrupted it holds the rows of all tuples in the order of
  submission.
\<close>

theorem rows_are_in_submission_order:
  "data_rows (results (run os params b es (started write_header lg))) =
     concat (map (contribution os params b)
               [0..<position (run os params b es (started write_header lg))]) \<and>
   (\<forall>j < position (run os params b es (started write_header lg)).
      futures (run os params b es (started write_header lg)) ! j =
        Some (outcome os params b j)) \<and>
   position (run os params b es (started write_header lg))
     \<le> length (futures (run os params b es (started write_header lg))) \<and>
   length (futures (run os params b es (started write_header lg))) \<le> length params \<and>
   data_rows (results (sweep os params b sched (started write_header lg))) =
     concat (map (contribution os params b)
               [0..<position (sweep os params b sched (started write_header lg))]) \<and>
   data_rows (results (sweep os params b sched (started write_header lg))) =
     data_rows (results (sweep os params b sched' (started write_header lg))) \<and>
   (no_interrupt os params b \<longrightarrow>
      data_rows (results (sweep os params b sched (started write_header lg))) =
        concat (map (contribution os params b) [0..<length params]))"
proof -
  have a: "\<forall>j < position (run os params b es (started write_header lg)).
             futures (run os params b es (started write_header lg)) ! j =
               Some (outcome os params b j)"
    using run_resolved [OF buffer_write_header] by blast
  have s: "data_rows (results (sweep os params b sched (started write_header lg))) =
             data_rows (results (sweep os params b sched' (started write_header lg)))"
    by (simp only: sweep_rows
          sweep_position_schedule [OF buffer_write_header, of os params b sched lg sched'])
  have n: "data_rows (results (sweep os params b sched (started write_header lg))) =
             concat (map (contribution os params b) [0..<length params])"
    if "no_interrupt os params b"
    by (simp only: sweep_rows sweep_no_interrupt(2) [OF that])
  from run_rows [of os params b es lg] a run_bounds [OF buffer_write_header, of os params b es lg]
    sweep_rows [of os params b sched lg] s n
  show ?thesis by blast
qed

theorem rows_are_in_submission_order_witness:
  "no_interrupt (by_index [Exits 9 0 ''40,10,a\<newline>'' '''', Exits 1 0 ''40,11,b\<newline>'' ''''])
     [(40, 10), (40, 11)] ''/w/my_app'' \<and>
   data_rows (results (sweep (by_index [Exits 9 0 ''40,10,a\<newline>'' '''', Exits 1 0 ''40,11,b\<newline>'' ''''])
       [(40, 10), (40, 11)] ''/w/my_app'' [Submit, Submit, Finish 1, Collect, Finish 0]
       (started write_header []))) =
     [[''40'', ''10'', ''a''], [''40'', ''11'', ''b'']]"
proof -
  have h: "no_interrupt (by_index [Exits 9 0 ''40,10,a\<newline>'' '''', Exits 1 0 ''40,11,b\<newline>'' ''''])
             [(40, 10), (40, 11)] ''/w/my_app''"
    by (simp add: no_interrupt_def by_index_def interrupted_def less_Suc_eq)
  have c0: "contribution (by_index [Exits 9 0 ''40,10,a\<newline>'' '''', Exits 1 0 ''40,11,b\<newline>'' ''''])
              [(40, 10), (40, 11)] ''/w/my_app'' 0 = [[''40'', ''10'', ''a'']]"
    by (simp add: contribution_def outcome_def fst_run_benchmark by_index_def returned_def
          write_result_def flush_def writerow_def open_w_def strip_def isspace_def)
  have c1: "contribution (by_index [Exits 9 0 ''40,10,a\<newline>'' '''', Exits 1 0 ''40,11,b\<newline>'' ''''])
              [(40, 10), (40, 11)] ''/w/my_app'' (Suc 0) = [[''40'', ''11'', ''b'']]"
    by (simp add: contribution_def outcome_def fst_run_benchmark by_index_def returned_def
          write_result_def flush_def writerow_def open_w_def strip_def isspace_def)
  from rows_are_in_submission_order
         [where os = "by_index [Exits 9 0 ''40,10,a\<newline>'' '''', Exits 1 0 ''40,11,b\<newline>'' '''']"
            and params = "[(40, 10), (40, 11)]" and b = "''/w/my_app''"
            and sched = "[Submit, Submit, Finish 1, Collect, Finish 0]" and lg = "[]"
            and es = "[]" and sched' = "[]"] h
  have "data_rows (results (sweep (by_index [Exits 9 0 ''40,10,a\<newline>'' '''', Exits 1 0 ''40,11,b\<newline>'' ''''])
          [(40, 10), (40, 11)] ''/w/my_app'' [Submit, Submit, Finish 1, Collect, Finish 0]
          (started write_header []))) =
        concat (map (contribution (by_index [Exits 9 0 ''40,10,a\<newline>'' '''', Exits 1 0 ''40,11,b\<newline>'' ''''])
                       [(40, 10), (40, 11)] ''/w/my_app'') [0..<length [(40 :: int, 10 :: int), (40, 11)]])"
    by blast
  then show ?thesis using h c0 c1 by (simp add: upt_rec [of 0] upt_rec [of "Suc 0"])
qed

section \<open>Counting the rows\<close>

lemma length_contribution:
  "length (contribution os params b i) = (if returns_text (outcome os params b i) then 1 else 0)"
  by (simp add: contribution_def returns_text_def returned_def write_result_def flush_def
        writerow_def open_w_def split: sum.splits option.splits)

lemma length_concat_count:
  assumes "\<And>x. length (g x) = (if P x then 1 else 0)"
  shows "length (concat (map g xs)) = length (filter P xs)"
  by (induction xs) (simp_all add: assms)

lemma length_rows_upto:
  "length (concat (map (contribution os params b) [0..<p])) =
     length (filter (\<lambda>i. returns_text (outcome os params b i)) [0..<p])"
  by (rule length_concat_count) (rule length_contribution)

lemma filter_all_length: "length (filter P xs) = length xs \<longleftrightarrow> (\<forall>x \<in> set xs. P x)"
proof (induction xs)
  case Nil
  show ?case by simp
next
  case (Cons a xs)
  have "length (filter P xs) \<noteq> Suc (length xs)"
    using length_filter_le [of P xs] by linarith
  then show ?case using Cons by auto
qed

lemma rows_upto_le: "length (concat (map (contribution os params b) [0..<p])) \<le> p"
proof -
  have "length (filter (\<lambda>i. returns_text (outcome os params b i)) [0..<p]) \<le> length [0..<p]"
    by (rule length_filter_le)
  then show ?thesis by (simp add: length_rows_upto)
qed

lemma rows_upto_eq:
  "length (concat (map (contribution os params b) [0..<p])) = p \<longleftrightarrow>
     (\<forall>i < p. returns_text (outcome os params b i))"
proof -
  have "length (filter (\<lambda>i. returns_text (outcome os params b i)) [0..<p]) = length [0..<p] \<longleftrightarrow>
          (\<forall>i \<in> set [0..<p]. returns_text (outcome os params b i))"
    by (rule filter_all_length)
  moreover have "(\<forall>i \<in> set [0..<p]. returns_text (outcome os params b i)) \<longleftrightarrow>
                 (\<forall>i < p. returns_text (outcome os params b i))"
    by auto
  ultimately show ?thesis by (simp add: length_rows_upto)
qed

lemma returns_text_Inl: "\<not> returns_text (Inl e)"
  by (simp add: returns_text_def)

text \<open>
  Claim C3, as amended. For every list of tuples, in every state reached and at the end of
  the sweep, the file has at most as many data rows as there are tuples; at the end it has
  as many exactly when every invocation returned a text that is not empty.
\<close>

theorem rows_at_most_tuples:
  "length (data_rows (results (run os params b es (started write_header lg)))) \<le> length params \<and>
   length (data_rows (results (sweep os params b sched (started write_header lg))))
     \<le> length params \<and>
   (length (data_rows (results (sweep os params b sched (started write_header lg)))) =
      length params \<longleftrightarrow>
    (\<forall>i < length params. returns_text (outcome os params b i)))"
proof -
  let ?p = "position (sweep os params b sched (started write_header lg))"
  let ?rows = "length (data_rows (results (sweep os params b sched (started write_header lg))))"
  have r: "length (data_rows (results (run os params b es (started write_header lg))))
             \<le> length params"
  proof -
    have "length (data_rows (results (run os params b es (started write_header lg))))
            \<le> position (run os params b es (started write_header lg))"
      by (simp only: run_rows rows_upto_le)
    also have "\<dots> \<le> length (futures (run os params b es (started write_header lg)))"
      using buffer_write_header by (rule run_bounds(1))
    also have "\<dots> \<le> length params"
      using buffer_write_header by (rule run_bounds(2))
    finally show ?thesis .
  qed
  have p: "?p \<le> length params" using buffer_write_header by (rule sweep_position(1))
  have rp: "?rows \<le> ?p" by (simp only: sweep_rows rows_upto_le)
  have le: "?rows \<le> length params" using rp p by (rule le_trans)
  have eq: "?rows = ?p \<longleftrightarrow> (\<forall>i < ?p. returns_text (outcome os params b i))"
    by (simp only: sweep_rows rows_upto_eq)
  have iff: "?rows = length params \<longleftrightarrow> (\<forall>i < length params. returns_text (outcome os params b i))"
  proof
    assume a: "?rows = length params"
    then have "?p = length params" using rp p by simp
    then show "\<forall>i < length params. returns_text (outcome os params b i)"
      using a eq by simp
  next
    assume a: "\<forall>i < length params. returns_text (outcome os params b i)"
    have "?p = length params"
    proof (rule ccontr)
      assume n: "?p \<noteq> length params"
      then have lt: "?p < length params" using p by simp
      have "?p = length params \<or> (\<exists>e. outcome os params b ?p = Inl e)"
        using buffer_write_header by (rule sweep_position(3))
      then obtain e where "outcome os params b ?p = Inl e" using n by blast
      moreover have "returns_text (outcome os params b ?p)" using a lt by blast
      ultimately show False by (simp add: returns_text_Inl)
    qed
    then show "?rows = length params" using a eq by simp
  qed
  from r le iff show ?thesis by blast
qed

theorem rows_at_most_tuples_witness:
  "returns_text (outcome (by_index [Exits 9 0 ''40,10,a\<newline>'' '''', Exits 1 0 ''40,11,b\<newline>'' ''''])
       [(40, 10), (40, 11)] ''/w/my_app'' 0) \<and>
   returns_text (outcome (by_index [Exits 9 0 ''40,10,a\<newline>'' '''', Exits 1 0 ''40,11,b\<newline>'' ''''])
       [(40, 10), (40, 11)] ''/w/my_app'' 1) \<and>
   length (data_rows (results (sweep (by_index [Exits 9 0 ''40,10,a\<newline>'' '''', Exits 1 0 ''40,11,b\<newline>'' ''''])
       [(40, 10), (40, 11)] ''/w/my_app'' [Submit, Finish 0] (started write_header [])))) = 2"
proof -
  have h0: "returns_text (outcome (by_index [Exits 9 0 ''40,10,a\<newline>'' '''', Exits 1 0 ''40,11,b\<newline>'' ''''])
              [(40, 10), (40, 11)] ''/w/my_app'' 0)"
    by (simp add: outcome_def fst_run_benchmark by_index_def returns_text_def)
  have h1: "returns_text (outcome (by_index [Exits 9 0 ''40,10,a\<newline>'' '''', Exits 1 0 ''40,11,b\<newline>'' ''''])
              [(40, 10), (40, 11)] ''/w/my_app'' 1)"
    by (simp add: outcome_def fst_run_benchmark by_index_def returns_text_def)
  have h: "\<forall>i < length [(40 :: int, 10 :: int), (40, 11)].
             returns_text (outcome (by_index [Exits 9 0 ''40,10,a\<newline>'' '''', Exits 1 0 ''40,11,b\<newline>'' ''''])
               [(40, 10), (40, 11)] ''/w/my_app'' i)"
    using h0 h1 by (simp add: less_Suc_eq)
  from rows_at_most_tuples
         [where os = "by_index [Exits 9 0 ''40,10,a\<newline>'' '''', Exits 1 0 ''40,11,b\<newline>'' '''']"
            and params = "[(40, 10), (40, 11)]" and b = "''/w/my_app''"
            and sched = "[Submit, Finish 0]" and lg = "[]" and es = "[]"] h
  have "length (data_rows (results (sweep (by_index [Exits 9 0 ''40,10,a\<newline>'' '''', Exits 1 0 ''40,11,b\<newline>'' ''''])
          [(40, 10), (40, 11)] ''/w/my_app'' [Submit, Finish 0] (started write_header [])))) =
        length [(40 :: int, 10 :: int), (40, 11)]"
    by blast
  then show ?thesis using h0 h1 by simp
qed

text \<open>
  The claim as worded fails: the only invocation exits with status 0 and prints nothing,
  its outcome is a success, and the file has no data row for one tuple.
\<close>

theorem all_success_fewer_rows_counterexample:
  "is_Success (outcome (by_index [Exits 1 0 '''' '''']) [(40, 10)] ''/w/my_app'' 0) \<and>
   length [(40 :: int, 10 :: int)] = 1 \<and>
   length (data_rows (results (sweep (by_index [Exits 1 0 '''' '''']) [(40, 10)] ''/w/my_app'' []
       (started write_header [])))) = 0"
proof -
  have o: "outcome (by_index [Exits 1 0 '''' '''']) [(40, 10)] ''/w/my_app'' 0 = Inr (Some [])"
    by (simp add: outcome_def fst_run_benchmark by_index_def)
  then have c: "contribution (by_index [Exits 1 0 '''' '''']) [(40, 10)] ''/w/my_app'' 0 = []"
    using empty_contributes_nothing by blast
  have "data_rows (results (sweep (by_index [Exits 1 0 '''' '''']) [(40, 10)] ''/w/my_app'' []
          (started write_header []))) =
        concat (map (contribution (by_index [Exits 1 0 '''' '''']) [(40, 10)] ''/w/my_app'')
          (filter (\<lambda>j. j \<noteq> 0)
             [0..<position (sweep (by_index [Exits 1 0 '''' '''']) [(40, 10)] ''/w/my_app'' []
                 (started write_header []))]))"
    using c by (rule sweep_rows_without)
  moreover have "position (sweep (by_index [Exits 1 0 '''' '''']) [(40, 10)] ''/w/my_app'' []
                   (started write_header [])) \<le> length [(40 :: int, 10 :: int)]"
    using buffer_write_header by (rule sweep_position(1))
  then have "filter (\<lambda>j. j \<noteq> 0)
               [0..<position (sweep (by_index [Exits 1 0 '''' '''']) [(40, 10)] ''/w/my_app'' []
                   (started write_header []))] = []"
    by (auto simp add: filter_empty_conv)
  ultimately show ?thesis using o by (simp add: is_Success_def)
qed

section \<open>Failures stay local\<close>

lemma outcome_fails:
  "fails (os i (cmd b (fst (params ! i)) (snd (params ! i)))) \<Longrightarrow>
     outcome os params b i = Inr None"
  by (auto simp add: outcome_def fst_run_benchmark fails_def split: child.splits)

lemma contribution_success:
  assumes "os i (cmd b (fst (params ! i)) (snd (params ! i))) = Exits secs 0 out err"
    and "secs \<le> 3000" and "out \<noteq> []"
  shows "contribution os params b i = [split (CHR '','') (strip out)]"
proof -
  have "outcome os params b i = Inr (Some out)"
    using assms(1,2) by (simp add: outcome_def fst_run_benchmark)
  then show ?thesis
    using assms(3)
    by (simp add: contribution_def returned_def write_result_def flush_def writerow_def open_w_def)
qed

text \<open>
  Claim C8. For every list of tuples and every combination of timeouts, exits with a status
  that is not zero and unexpected errors among the invocations, none interrupted: each
  failing invocation returns \<open>None\<close> to its own future; no exception leaves the collection
  loop, in any state reached and at the end; at the end every future holds the outcome of
  its own invocation, the loop has passed all tuples, and the data rows of the file are
  the rows of all tuples in the order of submission, where every invocation that exits
  with status 0 in time with a text that is not empty has its row, whatever the others did.
\<close>

theorem failures_do_not_stop_the_sweep:
  assumes "no_interrupt os params b"
  shows "(\<forall>i < length params.
            fails (os i (cmd b (fst (params ! i)) (snd (params ! i)))) \<longrightarrow>
              outcome os params b i = Inr None \<and> contribution os params b i = []) \<and>
         raised (run os params b es (started write_header lg)) = None \<and>
         raised (sweep os params b sched (started write_header lg)) = None \<and>
         position (sweep os params b sched (started write_header lg)) = length params \<and>
         (\<forall>i < length params.
            futures (sweep os params b sched (started write_header lg)) ! i =
              Some (outcome os params b i)) \<and>
         data_rows (results (sweep os params b sched (started write_header lg))) =
           concat (map (contribution os params b) [0..<length params]) \<and>
         (\<forall>i < length params. \<forall>secs out err.
            os i (cmd b (fst (params ! i)) (snd (params ! i))) = Exits secs 0 out err \<and>
            secs \<le> 3000 \<and> out \<noteq> [] \<longrightarrow>
              contribution os params b i = [split (CHR '','') (strip out)])"
proof -
  have f: "\<forall>i < length params.
             fails (os i (cmd b (fst (params ! i)) (snd (params ! i)))) \<longrightarrow>
               outcome os params b i = Inr None \<and> contribution os params b i = []"
    using outcome_fails failure_contributes_nothing by blast
  have "sweep_inv os params b write_header (run os params b es (started write_header lg))"
    using inv_started buffer_write_header by (rule inv_run)
  then have r: "raised (run os params b es (started write_header lg)) = None"
    using assms by (rule raised_no_interrupt)
  have u: "\<forall>i < length params.
             futures (sweep os params b sched (started write_header lg)) ! i =
               Some (outcome os params b i)"
    using buffer_write_header by (rule sweep_state(3))
  have d: "data_rows (results (sweep os params b sched (started write_header lg))) =
             concat (map (contribution os params b) [0..<length params])"
    by (simp only: sweep_rows sweep_no_interrupt(2) [OF assms])
  have c: "\<forall>i < length params. \<forall>secs out err.
             os i (cmd b (fst (params ! i)) (snd (params ! i))) = Exits secs 0 out err \<and>
             secs \<le> 3000 \<and> out \<noteq> [] \<longrightarrow>
               contribution os params b i = [split (CHR '','') (strip out)]"
    using contribution_success by blast
  from f r sweep_no_interrupt [OF assms, of sched lg] u d c show ?thesis by blast
qed

theorem failures_do_not_stop_the_sweep_witness:
  "no_interrupt
     (by_index [Hangs, Exits 1 2 '''' ''boom'', Launch_error ''No such file'',
                Exits 1 0 ''40,13,x\<newline>'' ''''])
     [(40, 10), (40, 11), (40, 12), (40, 13)] ''/w/my_app'' \<and>
   raised (sweep
     (by_index [Hangs, Exits 1 2 '''' ''boom'', Launch_error ''No such file'',
                Exits 1 0 ''40,13,x\<newline>'' ''''])
     [(40, 10), (40, 11), (40, 12), (40, 13)] ''/w/my_app'' [Submit, Finish 0, Collect]
     (started write_header [])) = None \<and>
   data_rows (results (sweep
     (by_index [Hangs, Exits 1 2 '''' ''boom'', Launch_error ''No such file'',
                Exits 1 0 ''40,13,x\<newline>'' ''''])
     [(40, 10), (40, 11), (40, 12), (40, 13)] ''/w/my_app'' [Submit, Finish 0, Collect]
     (started write_header []))) = [[''40'', ''13'', ''x'']]"
proof -
  have h: "no_interrupt
             (by_index [Hangs, Exits 1 2 '''' ''boom'', Launch_error ''No such file'',
                        Exits 1 0 ''40,13,x\<newline>'' ''''])
             [(40, 10), (40, 11), (40, 12), (40, 13)] ''/w/my_app''"
    by (simp add: no_interrupt_def by_index_def interrupted_def less_Suc_eq)
  have c: "map (contribution
                  (by_index [Hangs, Exits 1 2 '''' ''boom'', Launch_error ''No such file'',
                             Exits 1 0 ''40,13,x\<newline>'' ''''])
                  [(40, 10), (40, 11), (40, 12), (40, 13)] ''/w/my_app'') [0, 1, 2, 3] =
           [[], [], [], [[''40'', ''13'', ''x'']]]"
    by (simp add: contribution_def outcome_def fst_run_benchmark by_index_def returned_def
          write_result_def flush_def writerow_def open_w_def strip_def isspace_def)
  have u: "[0..<length [(40 :: int, 10 :: int), (40, 11), (40, 12), (40, 13)]] = [0, 1, 2, 3]"
    by (simp add: upt_rec [of 0] upt_rec [of "Suc 0"] upt_rec [of 2] upt_rec [of 3] upt_rec [of 4])
  from failures_do_not_stop_the_sweep
         [where os = "by_index [Hangs, Exits 1 2 '''' ''boom'', Launch_error ''No such file'',
                                Exits 1 0 ''40,13,x\<newline>'' '''']"
            and params = "[(40, 10), (40, 11), (40, 12), (40, 13)]" and b = "''/w/my_app''"
            and sched = "[Submit, Finish 0, Collect]" and lg = "[]" and es = "[]", OF h]
  have "raised (sweep
          (by_index [Hangs, Exits 1 2 '''' ''boom'', Launch_error ''No such file'',
                     Exits 1 0 ''40,13,x\<newline>'' ''''])
          [(40, 10), (40, 11), (40, 12), (40, 13)] ''/w/my_app'' [Submit, Finish 0, Collect]
          (started write_header [])) = None \<and>
        data_rows (results (sweep
          (by_index [Hangs, Exits 1 2 '''' ''boom'', Launch_error ''No such file'',
                     Exits 1 0 ''40,13,x\<newline>'' ''''])
          [(40, 10), (40, 11), (40, 12), (40, 13)] ''/w/my_app'' [Submit, Finish 0, Collect]
          (started write_header []))) =
        concat (map (contribution
                  (by_index [Hangs, Exits 1 2 '''' ''boom'', Launch_error ''No such file'',
                             Exits 1 0 ''40,13,x\<newline>'' ''''])
                  [(40, 10), (40, 11), (40, 12), (40, 13)] ''/w/my_app'')
                [0..<length [(40 :: int, 10 :: int), (40, 11), (40, 12), (40, 13)]])"
    by blast
  then show ?thesis using h by (simp only: u c) simp
qed

section \<open>The compiled-in grid\<close>

lemma grid_40_10: "param_combinations lambdas taus = [(40, 10)]"
  by (simp add: param_combinations_def lambdas_def taus_def py_range_def upto_rec1)

lemma split_stub: "split (CHR '','') ''40,10,1.1,2.2,3.3'' = [''40'', ''10'', ''1.1'', ''2.2'', ''3.3'']"
  by simp

lemma strip_stub: "strip ''40,10,1.1,2.2,3.3'' = ''40,10,1.1,2.2,3.3''"
  by (simp add: strip_def isspace_def)

lemma strip_stub_newline: "strip ''40,10,1.1,2.2,3.3\<newline>'' = ''40,10,1.1,2.2,3.3''"
  by (simp add: strip_def isspace_def)

text \<open>
  Claim C5. The two lists of values of the program give exactly one tuple, \<open>(40, 10)\<close>.
  When the pool size is positive and the executable, run with the arguments \<open>40\<close> and
  \<open>10\<close>, prints \<open>40,10,1.1,2.2,3.3\<close> (with or without the newline that ends the line) and
  exits with status 0 within the timeout, \<open>main\<close> ends under every schedule with a file
  that holds the header row followed by exactly one data row, \<open>40,10,1.1,2.2,3.3\<close>;
  nothing is left in the buffer and no exception was raised.
\<close>

theorem single_tuple_scenario:
  assumes "0 < threads"
    and "os 0 [b, ''40'', ''10''] = Exits secs 0 out err"
    and "secs \<le> 3000"
    and "out = ''40,10,1.1,2.2,3.3'' \<or> out = ''40,10,1.1,2.2,3.3\<newline>''"
  shows "param_combinations lambdas taus = [(40, 10)] \<and>
         disk (results (main threads b os sched)) =
           [[''lambda'', ''tau'', ''t_open_1_8'', ''t_open_1_4'', ''t_open_1_2''],
            [''40'', ''10'', ''1.1'', ''2.2'', ''3.3'']] \<and>
         buffer (results (main threads b os sched)) = [] \<and>
         raised (main threads b os sched) = None"
proof -
  let ?s = "sweep os [(40, 10)] b sched (started write_header (grid_log lambdas taus))"
  have m: "main threads b os sched = ?s"
    using assms(1) by (simp add: main_def main_from_sweep grid_40_10)
  have ch: "os 0 (cmd b (fst ([(40, 10)] ! 0)) (snd ([(40, 10)] ! 0))) = Exits secs 0 out err"
    using assms(2) by (simp add: cmd_40_10)
  have n: "no_interrupt os [(40, 10)] b"
    using ch by (simp add: no_interrupt_def interrupted_def)
  have r: "raised ?s = None" using n by (rule sweep_no_interrupt(1))
  have p: "position ?s = length [(40 :: int, 10 :: int)]" using n by (rule sweep_no_interrupt(2))
  have ne: "out \<noteq> []" using assms(4) by auto
  have "contribution os [(40, 10)] b 0 = [split (CHR '','') (strip out)]"
    using ch assms(3) ne by (rule contribution_success)
  moreover have "split (CHR '','') (strip out) = [''40'', ''10'', ''1.1'', ''2.2'', ''3.3'']"
    using assms(4) by (auto simp only: strip_stub strip_stub_newline split_stub)
  ultimately have c: "contribution os [(40, 10)] b 0 = [[''40'', ''10'', ''1.1'', ''2.2'', ''3.3'']]"
    by simp
  have "disk (results ?s) =
          header # concat (map (contribution os [(40, 10)] b) [0..<position ?s])"
    by (rule sweep_disk)
  then have d: "disk (results ?s) =
                  [[''lambda'', ''tau'', ''t_open_1_8'', ''t_open_1_4'', ''t_open_1_2''],
                   [''40'', ''10'', ''1.1'', ''2.2'', ''3.3'']]"
    by (simp add: p c header_def)
  have bf: "buffer (results ?s) = []" by (rule sweep_buffer)
  from grid_40_10 d bf r show ?thesis unfolding m by blast
qed

theorem single_tuple_scenario_witness:
  "(0 :: int) < 4 \<and>
   by_index [Exits 2 0 ''40,10,1.1,2.2,3.3\<newline>'' ''''] 0 [''/w/my_app'', ''40'', ''10''] =
     Exits 2 0 ''40,10,1.1,2.2,3.3\<newline>'' '''' \<and>
   (2 :: nat) \<le> 3000 \<and>
   disk (results (main 4 ''/w/my_app'' (by_index [Exits 2 0 ''40,10,1.1,2.2,3.3\<newline>'' ''''])
                    [Finish 0, Submit, Collect])) =
     [[''lambda'', ''tau'', ''t_open_1_8'', ''t_open_1_4'', ''t_open_1_2''],
      [''40'', ''10'', ''1.1'', ''2.2'', ''3.3'']]"
proof -
  have h1: "(0 :: int) < 4" by simp
  have h2: "by_index [Exits 2 0 ''40,10,1.1,2.2,3.3\<newline>'' ''''] 0 [''/w/my_app'', ''40'', ''10''] =
              Exits 2 0 ''40,10,1.1,2.2,3.3\<newline>'' ''''"
    by (simp add: by_index_def)
  have h3: "(2 :: nat) \<le> 3000" by simp
  have h4: "''40,10,1.1,2.2,3.3\<newline>'' = ''40,10,1.1,2.2,3.3'' \<or>
            ''40,10,1.1,2.2,3.3\<newline>'' = ''40,10,1.1,2.2,3.3\<newline>''"
    by simp
  from single_tuple_scenario
         [where threads = 4 and os = "by_index [Exits 2 0 ''40,10,1.1,2.2,3.3\<newline>'' '''']"
            and b = "''/w/my_app''" and secs = 2 and out = "''40,10,1.1,2.2,3.3\<newline>''"
            and err = "''''" and sched = "[Finish 0, Submit, Collect]", OF h1 h2 h3 h4] h1 h2 h3
  show ?thesis by blast
qed

end
